theory Spec2Isabelle
  imports Main
begin

section \<open>Koyeb keep-alive worker: the platform\<close>

text \<open>
  The worker (\<^verbatim>\<open>_worker.js\<close>) runs on a JavaScript platform. This first part models what
  the program takes from that platform: exceptions, JSON values and their text form,
  the key-value namespace \<^verbatim>\<open>LOG_KV\<close>, the network, the clock and the console.
  Strings are byte lists holding UTF-8 text, the form in which the key-value store and
  HTTP bodies carry them.
\<close>

subsection \<open>Exceptions\<close>

datatype exn = Error string | TypeError string | SyntaxError string

fun message :: "exn \<Rightarrow> string" where
  "message (Error m) = m"
| "message (TypeError m) = m"
| "message (SyntaxError m) = m"

subsection \<open>JSON values\<close>

text \<open>
  A value as \<^verbatim>\<open>JSON.parse\<close> returns it. A number is kept as its literal text (the program
  never computes with a parsed number). An object is the list of its members in the
  order of the text; JavaScript keeps one member for a key that occurs twice and moves
  keys that are array indices to the front, which changes nothing for the objects the
  worker builds (\<^verbatim>\<open>time\<close>, \<^verbatim>\<open>status\<close>, \<^verbatim>\<open>messages\<close>; \<^verbatim>\<open>success\<close>, \<^verbatim>\<open>logs\<close>).
\<close>

datatype json =
    JNull
  | JBool bool
  | JNum string
  | JStr string
  | JArr "json list"
  | JObj "(string \<times> json) list"

subsection \<open>Reading JSON text: \<^verbatim>\<open>JSON.parse\<close>\<close>

text \<open>
  The grammar of ECMA-404: white space, the three literals, numbers, strings with their
  escapes, arrays and objects. A \<^verbatim>\<open>\uXXXX\<close> escape is stored as the UTF-8 bytes of its
  code point, a surrogate pair as the one code point it denotes; a lone surrogate has no
  UTF-8 form and is read as U+FFFD.
\<close>

definition is_ws :: "char \<Rightarrow> bool" where
  "is_ws c = (c \<in> set [CHR 0x20, CHR 0x09, CHR 0x0A, CHR 0x0D])"

definition skip_ws :: "string \<Rightarrow> string" where
  "skip_ws s = dropWhile is_ws s"

definition is_digit :: "char \<Rightarrow> bool" where
  "is_digit c = (c \<in> set ''0123456789'')"

definition is_number_char :: "char \<Rightarrow> bool" where
  "is_number_char c = (is_digit c \<or> c \<in> set ''+-.eE'')"

definition digits1 :: "string \<Rightarrow> bool" where
  "digits1 s = (s \<noteq> [] \<and> list_all is_digit s)"

definition exp_part :: "string \<Rightarrow> bool" where
  "exp_part s =
     (case s of
        [] \<Rightarrow> True
      | c # r \<Rightarrow>
          (c = CHR ''e'' \<or> c = CHR ''E'') \<and>
          (case r of
             [] \<Rightarrow> False
           | d # r' \<Rightarrow> if d = CHR ''+'' \<or> d = CHR ''-'' then digits1 r' else digits1 r))"

definition frac_part :: "string \<Rightarrow> bool" where
  "frac_part s =
     (case s of
        [] \<Rightarrow> True
      | c # r \<Rightarrow>
          if c = CHR ''.'' then takeWhile is_digit r \<noteq> [] \<and> exp_part (dropWhile is_digit r)
          else exp_part s)"

definition int_part :: "string \<Rightarrow> bool" where
  "int_part s =
     (case takeWhile is_digit s of
        [] \<Rightarrow> False
      | d # ds \<Rightarrow> (if d = CHR ''0'' then ds = [] else True) \<and> frac_part (dropWhile is_digit s))"

definition number_syntax :: "string \<Rightarrow> bool" where
  "number_syntax s =
     (case s of
        [] \<Rightarrow> False
      | c # r \<Rightarrow> if c = CHR ''-'' then int_part r else int_part s)"

definition lex_number :: "string \<Rightarrow> (string \<times> string) option" where
  "lex_number s =
     (let l = takeWhile is_number_char s
      in if number_syntax l then Some (l, dropWhile is_number_char s) else None)"

definition hex_val :: "char \<Rightarrow> nat option" where
  "hex_val c =
     (if is_digit c then Some (of_char c - 48)
      else if c \<in> set ''abcdef'' then Some (of_char c - 87)
      else if c \<in> set ''ABCDEF'' then Some (of_char c - 55)
      else None)"

fun hex4 :: "string \<Rightarrow> nat option" where
  "hex4 [a, b, c, d] =
     (case (hex_val a, hex_val b, hex_val c, hex_val d) of
        (Some w, Some x, Some y, Some z) \<Rightarrow> Some (((w * 16 + x) * 16 + y) * 16 + z)
      | _ \<Rightarrow> None)"
| "hex4 _ = None"

definition utf8 :: "nat \<Rightarrow> string" where
  "utf8 n =
     (if n < 0x80 then [char_of n]
      else if n < 0x800 then [char_of (0xC0 + n div 0x40), char_of (0x80 + n mod 0x40)]
      else if n < 0x10000 then
        [char_of (0xE0 + n div 0x1000), char_of (0x80 + n div 0x40 mod 0x40),
         char_of (0x80 + n mod 0x40)]
      else
        [char_of (0xF0 + n div 0x40000), char_of (0x80 + n div 0x1000 mod 0x40),
         char_of (0x80 + n div 0x40 mod 0x40), char_of (0x80 + n mod 0x40)])"

definition low_surrogate_escape :: "string \<Rightarrow> nat option" where
  "low_surrogate_escape s =
     (if take 2 s = [CHR 0x5C, CHR ''u''] then
        (case hex4 (take 4 (drop 2 s)) of
           None \<Rightarrow> None
         | Some m \<Rightarrow> if 0xDC00 \<le> m \<and> m < 0xE000 then Some m else None)
      else None)"

definition unescape :: "char \<Rightarrow> char option" where
  "unescape e =
     (if e = CHR 0x22 \<or> e = CHR 0x5C \<or> e = CHR ''/'' then Some e
      else if e = CHR ''b'' then Some (CHR 0x08)
      else if e = CHR ''f'' then Some (CHR 0x0C)
      else if e = CHR ''n'' then Some (CHR 0x0A)
      else if e = CHR ''r'' then Some (CHR 0x0D)
      else if e = CHR ''t'' then Some (CHR 0x09)
      else None)"

definition prepend :: "string \<Rightarrow> (string \<times> string) option \<Rightarrow> (string \<times> string) option" where
  "prepend p res = (case res of None \<Rightarrow> None | Some (s, r) \<Rightarrow> Some (p @ s, r))"

fun parse_chars :: "string \<Rightarrow> (string \<times> string) option" where
  "parse_chars [] = None"
| "parse_chars (c # r) =
     (if c = CHR 0x22 then Some ([], r)
      else if c = CHR 0x5C then
        (case r of
           [] \<Rightarrow> None
         | e # r' \<Rightarrow>
             if e = CHR ''u'' then
               (case hex4 (take 4 r') of
                  None \<Rightarrow> None
                | Some n \<Rightarrow>
                    if 0xD800 \<le> n \<and> n < 0xDC00 then
                      (case low_surrogate_escape (drop 4 r') of
                         Some m \<Rightarrow>
                           prepend (utf8 (0x10000 + (n - 0xD800) * 0x400 + (m - 0xDC00)))
                             (parse_chars (drop 10 r'))
                       | None \<Rightarrow> prepend (utf8 0xFFFD) (parse_chars (drop 4 r')))
                    else if 0xDC00 \<le> n \<and> n < 0xE000 then
                      prepend (utf8 0xFFFD) (parse_chars (drop 4 r'))
                    else prepend (utf8 n) (parse_chars (drop 4 r')))
             else
               (case unescape e of
                  None \<Rightarrow> None
                | Some x \<Rightarrow> prepend [x] (parse_chars r')))
      else if (of_char c :: nat) < 0x20 then None
      else prepend [c] (parse_chars r))"

subsection \<open>Writing JSON text: \<^verbatim>\<open>JSON.stringify\<close>\<close>

text \<open>
  No white space is written. In a string the quote, the backslash and the control
  characters below U+0020 are escaped. A number is written as its literal text
  (JavaScript prints the number the literal denotes, so \<^verbatim>\<open>1.0\<close> as \<^verbatim>\<open>1\<close>); one
  that is not a JSON number (JavaScript's non-finite numbers) is written as \<^verbatim>\<open>null\<close>.
  This concerns numbers in entries that something else stored; the worker writes none.
\<close>

definition hex_digit :: "nat \<Rightarrow> char" where
  "hex_digit d = ''0123456789abcdef'' ! d"

definition escape_char :: "char \<Rightarrow> string" where
  "escape_char c =
     (if c = CHR 0x22 then [CHR 0x5C, CHR 0x22]
      else if c = CHR 0x5C then [CHR 0x5C, CHR 0x5C]
      else if c = CHR 0x08 then [CHR 0x5C, CHR ''b'']
      else if c = CHR 0x0C then [CHR 0x5C, CHR ''f'']
      else if c = CHR 0x0A then [CHR 0x5C, CHR ''n'']
      else if c = CHR 0x0D then [CHR 0x5C, CHR ''r'']
      else if c = CHR 0x09 then [CHR 0x5C, CHR ''t'']
      else if (of_char c :: nat) < 0x20 then
        [CHR 0x5C, CHR ''u'', CHR ''0'', CHR ''0'',
         hex_digit (of_char c div 16), hex_digit (of_char c mod 16)]
      else [c])"

definition quote :: "string \<Rightarrow> string" where
  "quote s = CHR 0x22 # concat (map escape_char s) @ [CHR 0x22]"

fun commas :: "string list \<Rightarrow> string" where
  "commas [] = []"
| "commas [s] = s"
| "commas (s # t # ts) = s @ CHR '','' # commas (t # ts)"

definition member_text :: "string \<times> string \<Rightarrow> string" where
  "member_text m = quote (fst m) @ CHR '':'' # snd m"

primrec JSON_stringify :: "json \<Rightarrow> string" where
  "JSON_stringify JNull = ''null''"
| "JSON_stringify (JBool b) = (if b then ''true'' else ''false'')"
| "JSON_stringify (JNum l) = (if lex_number l = Some (l, []) then l else ''null'')"
| "JSON_stringify (JStr s) = quote s"
| "JSON_stringify (JArr vs) = CHR ''['' # commas (map JSON_stringify vs) @ '']''"
| "JSON_stringify (JObj ms) =
     CHR ''{'' # commas (map member_text (map (map_prod id JSON_stringify) ms)) @ ''}''"

text \<open>
  The recursive-descent reader of values takes the nesting it may still open as its first
  argument; \<open>JSON_parse\<close> starts it with more than the length of the text, which no
  text can use up.
\<close>

fun parse_value :: "nat \<Rightarrow> string \<Rightarrow> (json \<times> string) option"
  and parse_elements :: "nat \<Rightarrow> string \<Rightarrow> (json list \<times> string) option"
  and parse_members :: "nat \<Rightarrow> string \<Rightarrow> ((string \<times> json) list \<times> string) option"
where
  "parse_value 0 s = None"
| "parse_value (Suc n) s =
     (case skip_ws s of
        [] \<Rightarrow> None
      | c # r \<Rightarrow>
          if c = CHR 0x22 then
            (case parse_chars r of None \<Rightarrow> None | Some (str, r') \<Rightarrow> Some (JStr str, r'))
          else if c = CHR ''['' then
            (case skip_ws r of
               [] \<Rightarrow> None
             | d # r' \<Rightarrow>
                 if d = CHR '']'' then Some (JArr [], r')
                 else (case parse_elements n r of
                         None \<Rightarrow> None
                       | Some (vs, r'') \<Rightarrow> Some (JArr vs, r'')))
          else if c = CHR ''{'' then
            (case skip_ws r of
               [] \<Rightarrow> None
             | d # r' \<Rightarrow>
                 if d = CHR ''}'' then Some (JObj [], r')
                 else (case parse_members n r of
                         None \<Rightarrow> None
                       | Some (ms, r'') \<Rightarrow> Some (JObj ms, r'')))
          else if take 4 (c # r) = ''null'' then Some (JNull, drop 4 (c # r))
          else if take 4 (c # r) = ''true'' then Some (JBool True, drop 4 (c # r))
          else if take 5 (c # r) = ''false'' then Some (JBool False, drop 5 (c # r))
          else (case lex_number (c # r) of
                  None \<Rightarrow> None
                | Some (l, r') \<Rightarrow> Some (JNum l, r')))"
| "parse_elements 0 s = None"
| "parse_elements (Suc n) s =
     (case parse_value n s of
        None \<Rightarrow> None
      | Some (v, r) \<Rightarrow>
          (case skip_ws r of
             [] \<Rightarrow> None
           | c # r' \<Rightarrow>
               if c = CHR '','' then
                 (case parse_elements n r' of
                    None \<Rightarrow> None
                  | Some (vs, r'') \<Rightarrow> Some (v # vs, r''))
               else if c = CHR '']'' then Some ([v], r')
               else None))"
| "parse_members 0 s = None"
| "parse_members (Suc n) s =
     (case skip_ws s of
        [] \<Rightarrow> None
      | q # r \<Rightarrow>
          if q \<noteq> CHR 0x22 then None
          else
            (case parse_chars r of
               None \<Rightarrow> None
             | Some (k, r1) \<Rightarrow>
                 (case skip_ws r1 of
                    [] \<Rightarrow> None
                  | c # r2 \<Rightarrow>
                      if c \<noteq> CHR '':'' then None
                      else
                        (case parse_value n r2 of
                           None \<Rightarrow> None
                         | Some (v, r3) \<Rightarrow>
                             (case skip_ws r3 of
                                [] \<Rightarrow> None
                              | d # r4 \<Rightarrow>
                                  if d = CHR '','' then
                                    (case parse_members n r4 of
                                       None \<Rightarrow> None
                                     | Some (ms, r5) \<Rightarrow> Some ((k, v) # ms, r5))
                                  else if d = CHR ''}'' then Some ([(k, v)], r4)
                                  else None)))))"

definition JSON_parse :: "string \<Rightarrow> exn + json" where
  "JSON_parse s =
     (case parse_value (Suc (length s)) s of
        None \<Rightarrow> Inl (SyntaxError ''Unexpected token in JSON'')
      | Some (v, r) \<Rightarrow>
          if skip_ws r = [] then Inr v else Inl (SyntaxError ''Unexpected token in JSON''))"


subsection \<open>Operations on values\<close>

text \<open>
  Truthiness, as \<^verbatim>\<open>if (x)\<close>, \<^verbatim>\<open>!x\<close> and \<^verbatim>\<open>x || y\<close> test it: \<^verbatim>\<open>undefined\<close>, \<^verbatim>\<open>null\<close>,
  \<^verbatim>\<open>false\<close>, zero and the empty string are falsy. An environment variable or a stored
  value is a \<open>string option\<close>, \<open>None\<close> standing for \<^verbatim>\<open>undefined\<close> or \<^verbatim>\<open>null\<close>. A
  number literal is zero when no digit before its exponent is other than 0.
\<close>

fun truthy :: "string option \<Rightarrow> bool" where
  "truthy None = False"
| "truthy (Some s) = (s \<noteq> [])"

fun js_truthy :: "json \<Rightarrow> bool" where
  "js_truthy JNull = False"
| "js_truthy (JBool b) = b"
| "js_truthy (JNum l) =
     list_ex (\<lambda>c. c \<in> set ''123456789'') (takeWhile (\<lambda>c. c \<notin> set ''eE'') l)"
| "js_truthy (JStr s) = (s \<noteq> [])"
| "js_truthy (JArr vs) = True"
| "js_truthy (JObj ms) = True"

text \<open>
  Reading a property \<^verbatim>\<open>v.name\<close> for a name that no built-in prototype defines (the
  program reads \<^verbatim>\<open>user\<close> and \<^verbatim>\<open>email\<close>): \<open>None\<close> is \<^verbatim>\<open>undefined\<close>; reading
  from \<^verbatim>\<open>null\<close> throws. Of two members with one key the later is the object's.
\<close>

fun get_prop :: "json \<Rightarrow> string \<Rightarrow> exn + json option" where
  "get_prop JNull name =
     Inl (TypeError (''Cannot read properties of null (reading '' @ [CHR 0x27] @ name @
                     [CHR 0x27] @ '')''))"
| "get_prop (JObj ms) name = Inr (map_of (rev ms) name)"
| "get_prop v name = Inr None"

text \<open>
  The string a template literal \<^verbatim>\<open>`${v}`\<close> inserts for a value. A number is
  inserted as its literal text (JavaScript prints the number the literal denotes, so
  \<^verbatim>\<open>1.50\<close> as \<^verbatim>\<open>1.5\<close>). An array is the
  texts of its elements joined by commas, \<^verbatim>\<open>null\<close> counting as the empty text. An
  object is \<^verbatim>\<open>[object Object]\<close>, unless it has a member named \<^verbatim>\<open>toString\<close>: that
  member hides the method of the prototype and is not a function, so the conversion
  throws.
\<close>

fun join_texts :: "(json \<times> (exn + string)) list \<Rightarrow> exn + string list" where
  "join_texts [] = Inr []"
| "join_texts (p # ps) =
     (case (if fst p = JNull then Inr [] else snd p) of
        Inl e \<Rightarrow> Inl e
      | Inr t \<Rightarrow> (case join_texts ps of Inl e \<Rightarrow> Inl e | Inr ts \<Rightarrow> Inr (t # ts)))"

primrec to_string :: "json \<Rightarrow> exn + string" where
  "to_string JNull = Inr ''null''"
| "to_string (JBool b) = Inr (if b then ''true'' else ''false'')"
| "to_string (JNum l) = Inr l"
| "to_string (JStr s) = Inr s"
| "to_string (JArr vs) = map_sum id commas (join_texts (zip vs (map to_string vs)))"
| "to_string (JObj ms) =
     (if ''toString'' \<in> set (map fst ms)
      then Inl (TypeError ''Cannot convert object to primitive value'')
      else Inr ''[object Object]'')"

text \<open>Decimal text of an integer, as a template literal inserts a number.\<close>

fun string_of_nat :: "nat \<Rightarrow> string" where
  "string_of_nat n =
     (if n < 10 then [''0123456789'' ! n]
      else string_of_nat (n div 10) @ [''0123456789'' ! (n mod 10)])"

definition string_of_int :: "int \<Rightarrow> string" where
  "string_of_int i = (if i < 0 then CHR ''-'' # string_of_nat (nat (- i)) else string_of_nat (nat i))"

text \<open>
  \<^verbatim>\<open>history.unshift(x)\<close>: only an array has the method; on any other value the call
  throws a \<^verbatim>\<open>TypeError\<close>.
\<close>

fun unshift :: "json \<Rightarrow> json \<Rightarrow> exn + json list" where
  "unshift x (JArr xs) = Inr (x # xs)"
| "unshift x JNull = Inl (TypeError (''Cannot read properties of null (reading '' @ [CHR 0x27] @ ''unshift'' @
                     [CHR 0x27] @ '')''))"
| "unshift x v = Inl (TypeError ''history.unshift is not a function'')"

subsection \<open>The world outside the worker\<close>

text \<open>
  What a run reads and changes. The key-value namespace maps keys to texts, and a read
  returns what was last written under the key (runs that interleave are not modelled). Every
  key-value operation and every network call takes its outcome from the world: the
  \<open>i\<close>-th key-value operation throws \<open>e\<close> when \<open>kv_fault w i = Some e\<close> (and then leaves
  the store as it was), the \<open>i\<close>-th network call ends as \<open>net w i\<close> says. The requests
  sent are recorded in order, and so is what \<^verbatim>\<open>console.error\<close> prints. The \<open>i\<close>-th
  reading of the clock yields the instant \<open>clock w i\<close>: its ISO-8601 text for
  \<^verbatim>\<open>new Date().toISOString()\<close>, its milliseconds for \<^verbatim>\<open>Date.now()\<close>.
\<close>

record instant =
  toISOString :: string
  getTime :: int

record http_request =
  url :: string
  headers :: "(string \<times> string) list"

record fetch_response =
  status_code :: nat
  statusText :: string
  json_body :: "exn + json"

record world =
  kv :: "string \<rightharpoonup> string"
  kv_ops :: nat
  kv_fault :: "nat \<Rightarrow> exn option"
  requests :: "http_request list"
  net :: "nat \<Rightarrow> exn + fetch_response"
  ticks :: nat
  clock :: "nat \<Rightarrow> instant"
  console :: "exn list"

text \<open>
  An asynchronous function is a function from the world to its outcome and the world it
  leaves: \<open>Inl e\<close> when it throws \<open>e\<close> (a rejected promise), \<open>Inr x\<close> when it returns
  \<open>x\<close>. \<open>io_bind\<close> is sequencing (\<^verbatim>\<open>await\<close>), \<open>try_catch\<close> is \<^verbatim>\<open>try { } catch (e) { }\<close>.
\<close>

type_synonym 'a io = "world \<Rightarrow> (exn + 'a) \<times> world"

definition io_return :: "'a \<Rightarrow> 'a io" where
  "io_return x = (\<lambda>w. (Inr x, w))"

definition io_result :: "exn + 'a \<Rightarrow> 'a io" where
  "io_result r = (\<lambda>w. (r, w))"

definition io_bind :: "'a io \<Rightarrow> ('a \<Rightarrow> 'b io) \<Rightarrow> 'b io" where
  "io_bind m f = (\<lambda>w. case m w of (Inl e, w') \<Rightarrow> (Inl e, w') | (Inr x, w') \<Rightarrow> f x w')"

definition try_catch :: "'a io \<Rightarrow> (exn \<Rightarrow> 'a io) \<Rightarrow> 'a io" where
  "try_catch m h = (\<lambda>w. case m w of (Inl e, w') \<Rightarrow> h e w' | (Inr x, w') \<Rightarrow> (Inr x, w'))"

definition KV_get :: "string \<Rightarrow> string option io" where
  "KV_get key =
     (\<lambda>w. let w' = w\<lparr>kv_ops := Suc (kv_ops w)\<rparr>
          in case kv_fault w (kv_ops w) of
               Some e \<Rightarrow> (Inl e, w')
             | None \<Rightarrow> (Inr (kv w key), w'))"

definition KV_put :: "string \<Rightarrow> string \<Rightarrow> unit io" where
  "KV_put key val =
     (\<lambda>w. let w' = w\<lparr>kv_ops := Suc (kv_ops w)\<rparr>
          in case kv_fault w (kv_ops w) of
               Some e \<Rightarrow> (Inl e, w')
             | None \<Rightarrow> (Inr (), w'\<lparr>kv := (kv w)(key \<mapsto> val)\<rparr>))"

definition fetch :: "http_request \<Rightarrow> fetch_response io" where
  "fetch req = (\<lambda>w. (net w (length (requests w)), w\<lparr>requests := requests w @ [req]\<rparr>))"

definition ok :: "fetch_response \<Rightarrow> bool" where
  "ok r = (200 \<le> status_code r \<and> status_code r \<le> 299)"

definition response_json :: "fetch_response \<Rightarrow> json io" where
  "response_json r = io_result (json_body r)"

definition Date_toISOString :: "string io" where
  "Date_toISOString = (\<lambda>w. (Inr (toISOString (clock w (ticks w))), w\<lparr>ticks := Suc (ticks w)\<rparr>))"

definition Date_now :: "int io" where
  "Date_now = (\<lambda>w. (Inr (getTime (clock w (ticks w))), w\<lparr>ticks := Suc (ticks w)\<rparr>))"

definition console_error :: "exn \<Rightarrow> unit io" where
  "console_error e = (\<lambda>w. (Inr (), w\<lparr>console := console w @ [e]\<rparr>))"

section \<open>The worker\<close>

subsection \<open>Configuration and environment\<close>

definition VERSION :: string where
  "VERSION = ''1.2.0''"

definition LOG_LIMIT :: nat where
  "LOG_LIMIT = 20"

text \<open>
  The bindings of a deployment: the API token, the optional URL to ping, and whether a
  key-value namespace is bound as \<^verbatim>\<open>LOG_KV\<close>.
\<close>

record env =
  KOYEB_TOKEN :: "string option"
  KOYEB_APP_URL :: "string option"
  LOG_KV :: bool

subsection \<open>Log messages\<close>

text \<open>
  The texts a run logs, each behind the time stamp of the run in brackets. Their
  non-ASCII characters (the pictographs and the Chinese wording of the source) are
  written as UTF-8 bytes.
\<close>

definition log_start :: "string \<Rightarrow> string \<Rightarrow> string" where
  \<comment> \<open>rocket, "task started (source: ...)"\<close>
  "log_start timestamp source =
     ''['' @ timestamp @ ''] '' @ [CHR 0xF0, CHR 0x9F, CHR 0x9A, CHR 0x80] @ '' '' @
     [CHR 0xE4, CHR 0xBB, CHR 0xBB, CHR 0xE5, CHR 0x8A, CHR 0xA1, CHR 0xE5, CHR 0xBC, CHR 0x80,
      CHR 0xE5, CHR 0xA7, CHR 0x8B] @ '' ('' @
     [CHR 0xE6, CHR 0x9D, CHR 0xA5, CHR 0xE6, CHR 0xBA, CHR 0x90] @ '': '' @ source @ '')''"

definition log_no_token :: "string \<Rightarrow> string" where
  \<comment> \<open>cross, "error: no KOYEB_TOKEN environment variable found. Configure it in the settings."\<close>
  "log_no_token timestamp =
     ''['' @ timestamp @ ''] '' @ [CHR 0xE2, CHR 0x9D, CHR 0x8C] @ '' '' @
     [CHR 0xE9, CHR 0x94, CHR 0x99, CHR 0xE8, CHR 0xAF, CHR 0xAF] @ '': '' @
     [CHR 0xE6, CHR 0x9C, CHR 0xAA, CHR 0xE6, CHR 0xA3, CHR 0x80, CHR 0xE6, CHR 0xB5, CHR 0x8B,
      CHR 0xE5, CHR 0x88, CHR 0xB0] @ '' KOYEB_TOKEN '' @
     [CHR 0xE7, CHR 0x8E, CHR 0xAF, CHR 0xE5, CHR 0xA2, CHR 0x83, CHR 0xE5, CHR 0x8F, CHR 0x98,
      CHR 0xE9, CHR 0x87, CHR 0x8F, CHR 0xE3, CHR 0x80, CHR 0x82, CHR 0xE8, CHR 0xAF, CHR 0xB7,
      CHR 0xE5, CHR 0x9C, CHR 0xA8, CHR 0xE8, CHR 0xAE, CHR 0xBE, CHR 0xE7, CHR 0xBD, CHR 0xAE,
      CHR 0xE4, CHR 0xB8, CHR 0xAD, CHR 0xE9, CHR 0x85, CHR 0x8D, CHR 0xE7, CHR 0xBD, CHR 0xAE,
      CHR 0xE3, CHR 0x80, CHR 0x82]"

definition log_api_ok :: "string \<Rightarrow> int \<Rightarrow> string \<Rightarrow> string" where
  \<comment> \<open>check mark, "Koyeb API verified (...ms) - user: ..."\<close>
  "log_api_ok timestamp duration email =
     ''['' @ timestamp @ ''] '' @ [CHR 0xE2, CHR 0x9C, CHR 0x85] @ '' Koyeb API '' @
     [CHR 0xE9, CHR 0xAA, CHR 0x8C, CHR 0xE8, CHR 0xAF, CHR 0x81, CHR 0xE6, CHR 0x88, CHR 0x90,
      CHR 0xE5, CHR 0x8A, CHR 0x9F] @ '' ('' @ string_of_int duration @ ''ms) - '' @
     [CHR 0xE7, CHR 0x94, CHR 0xA8, CHR 0xE6, CHR 0x88, CHR 0xB7] @ '': '' @ email"

definition log_api_failed :: "string \<Rightarrow> nat \<Rightarrow> string \<Rightarrow> string" where
  \<comment> \<open>cross, "Koyeb API failed: status statusText"\<close>
  "log_api_failed timestamp code text =
     ''['' @ timestamp @ ''] '' @ [CHR 0xE2, CHR 0x9D, CHR 0x8C] @ '' Koyeb API '' @
     [CHR 0xE5, CHR 0xA4, CHR 0xB1, CHR 0xE8, CHR 0xB4, CHR 0xA5] @ '': '' @
     string_of_nat code @ '' '' @ text"

definition log_api_exception :: "string \<Rightarrow> string \<Rightarrow> string" where
  \<comment> \<open>cross, "Koyeb API request exception: message"\<close>
  "log_api_exception timestamp msg =
     ''['' @ timestamp @ ''] '' @ [CHR 0xE2, CHR 0x9D, CHR 0x8C] @ '' Koyeb API '' @
     [CHR 0xE8, CHR 0xAF, CHR 0xB7, CHR 0xE6, CHR 0xB1, CHR 0x82, CHR 0xE5, CHR 0xBC, CHR 0x82,
      CHR 0xE5, CHR 0xB8, CHR 0xB8] @ '': '' @ msg"

definition log_ping :: "string \<Rightarrow> nat \<Rightarrow> int \<Rightarrow> string" where
  \<comment> \<open>globe, "App Ping: status (...ms)"\<close>
  "log_ping timestamp code duration =
     ''['' @ timestamp @ ''] '' @ [CHR 0xF0, CHR 0x9F, CHR 0x8C, CHR 0x90] @ '' App Ping: '' @
     string_of_nat code @ '' ('' @ string_of_int duration @ ''ms)''"

definition log_ping_failed :: "string \<Rightarrow> string \<Rightarrow> string" where
  \<comment> \<open>warning sign, "App Ping failed: message"\<close>
  "log_ping_failed timestamp msg =
     ''['' @ timestamp @ ''] '' @ [CHR 0xE2, CHR 0x9A, CHR 0xA0, CHR 0xEF, CHR 0xB8, CHR 0x8F] @
     '' App Ping '' @ [CHR 0xE5, CHR 0xA4, CHR 0xB1, CHR 0xE8, CHR 0xB4, CHR 0xA5] @ '': '' @ msg"

subsection \<open>\<^verbatim>\<open>saveLogs\<close>: appending to the history\<close>

text \<open>
  The record of one run, as the object literal of \<^verbatim>\<open>saveLogs\<close> builds it.
\<close>

definition logEntry :: "string \<Rightarrow> bool \<Rightarrow> string list \<Rightarrow> json" where
  "logEntry time status newLogs =
     JObj [(''time'', JStr time),
           (''status'', JStr (if status then ''success'' else ''error'')),
           (''messages'', JArr (map JStr newLogs))]"

text \<open>\<^verbatim>\<open>if (existing) history = JSON.parse(existing)\<close>, from \<^verbatim>\<open>let history = []\<close>.\<close>

definition parse_existing :: "string option \<Rightarrow> json io" where
  "parse_existing existing =
     (case existing of
        None \<Rightarrow> io_return (JArr [])
      | Some text \<Rightarrow> if truthy existing then io_result (JSON_parse text) else io_return (JArr []))"

text \<open>\<^verbatim>\<open>if (history.length > CONFIG.LOG_LIMIT) history = history.slice(0, CONFIG.LOG_LIMIT)\<close>\<close>

definition limit :: "json list \<Rightarrow> json list" where
  "limit history = (if length history > LOG_LIMIT then take LOG_LIMIT history else history)"

definition saveLogs :: "env \<Rightarrow> string list \<Rightarrow> bool \<Rightarrow> unit io" where
  "saveLogs env newLogs status =
     (if \<not> LOG_KV env then io_return ()
      else
        try_catch
          (io_bind (KV_get ''history'') (\<lambda>existing.
           io_bind (parse_existing existing) (\<lambda>history.
           io_bind Date_toISOString (\<lambda>time.
           io_bind (io_result (unshift (logEntry time status newLogs) history)) (\<lambda>history.
           io_bind (KV_put ''history'' (JSON_stringify (JArr (limit history)))) (\<lambda>_.
           io_bind Date_toISOString (\<lambda>now.
           KV_put ''last_run'' now)))))))
          (\<lambda>e. console_error e))"

subsection \<open>\<^verbatim>\<open>keepAlive\<close>: one run\<close>

text \<open>\<^verbatim>\<open>data.user?.email || 'Unknown'\<close>, as the text the template inserts.\<close>

definition user_email :: "json \<Rightarrow> exn + string" where
  "user_email data =
     (case get_prop data ''user'' of
        Inl e \<Rightarrow> Inl e
      | Inr None \<Rightarrow> Inr ''Unknown''
      | Inr (Some user) \<Rightarrow>
          if user = JNull then Inr ''Unknown''
          else
            (case get_prop user ''email'' of
               Inl e \<Rightarrow> Inl e
             | Inr None \<Rightarrow> Inr ''Unknown''
             | Inr (Some email) \<Rightarrow>
                 if js_truthy email then to_string email else Inr ''Unknown''))"

text \<open>
  Step 2, the request to the Koyeb API with the token; it runs only when the token is
  set. The \<^verbatim>\<open>try\<close> block changes \<^verbatim>\<open>success\<close> and \<^verbatim>\<open>logs\<close> only in statements
  that cannot throw, so the block is a computation of the new pair and the handler
  starts from the pair before the block.
\<close>

definition check_api :: "env \<Rightarrow> string \<Rightarrow> string list \<Rightarrow> (bool \<times> string list) io" where
  "check_api env timestamp logs =
     try_catch
       (io_bind Date_now (\<lambda>start.
        io_bind (fetch \<lparr>url = ''https://app.koyeb.com/v1/account/profile'',
                        headers = [(''Authorization'', ''Bearer '' @ the (KOYEB_TOKEN env)),
                                   (''Content-Type'', ''application/json'')]\<rparr>) (\<lambda>response.
        io_bind Date_now (\<lambda>finish.
          if ok response then
            io_bind (response_json response) (\<lambda>data.
            io_bind (io_result (user_email data)) (\<lambda>email.
            io_return (True, logs @ [log_api_ok timestamp (finish - start) email])))
          else
            io_return
              (False,
               logs @ [log_api_failed timestamp (status_code response) (statusText response)])))))
       (\<lambda>error. io_return (False, logs @ [log_api_exception timestamp (message error)]))"

text \<open>Step 3, the ping of the application URL; it runs only when the URL is set.\<close>

definition ping_app :: "env \<Rightarrow> string \<Rightarrow> string list \<Rightarrow> string list io" where
  "ping_app env timestamp logs =
     try_catch
       (io_bind Date_now (\<lambda>start.
        io_bind (fetch \<lparr>url = the (KOYEB_APP_URL env), headers = []\<rparr>) (\<lambda>res.
        io_bind Date_now (\<lambda>finish.
        io_return (logs @ [log_ping timestamp (status_code res) (finish - start)])))))
       (\<lambda>e. io_return (logs @ [log_ping_failed timestamp (message e)]))"

record RunResult =
  success :: bool
  logs :: "string list"

definition keepAlive :: "env \<Rightarrow> string \<Rightarrow> RunResult io" where
  "keepAlive env source =
     io_bind Date_toISOString (\<lambda>timestamp.
       let logs = [log_start timestamp source]
       in if \<not> truthy (KOYEB_TOKEN env) then
            (let logs = logs @ [log_no_token timestamp]
             in io_bind (saveLogs env logs False) (\<lambda>_.
                io_return \<lparr>success = False, logs = logs\<rparr>))
          else
            io_bind (check_api env timestamp logs) (\<lambda>(success, logs).
            io_bind (if truthy (KOYEB_APP_URL env) then ping_app env timestamp logs
                     else io_return logs) (\<lambda>logs.
            io_bind (saveLogs env logs success) (\<lambda>_.
            io_return \<lparr>success = success, logs = logs\<rparr>))))"

subsection \<open>The HTTP handlers\<close>

text \<open>
  A response of the worker: its body and its headers. The dashboard page is static
  markup around two flags (is the token set, is the namespace bound); the model keeps
  the flags in place of the markup.
\<close>

datatype content = Text string | Dashboard bool bool

record Response =
  body :: content
  response_headers :: "(string \<times> string) list"

text \<open>
  An incoming request; \<open>pathname\<close> is \<^verbatim>\<open>new URL(request.url).pathname\<close>. The two
  handlers of the exported object, \<^verbatim>\<open>fetch\<close> and \<^verbatim>\<open>scheduled\<close>, are \<open>worker_fetch\<close> and
  \<open>worker_scheduled\<close> here, \<open>fetch\<close> being the network call of the platform.
\<close>

record request =
  pathname :: string

definition RunResult_json :: "RunResult \<Rightarrow> json" where
  "RunResult_json result =
     JObj [(''success'', JBool (success result)), (''logs'', JArr (map JStr (logs result)))]"

definition handleTrigger :: "env \<Rightarrow> Response io" where
  "handleTrigger env =
     io_bind (keepAlive env ''Web Dashboard'') (\<lambda>result.
     io_return \<lparr>body = Text (JSON_stringify (RunResult_json result)),
                response_headers = [(''Content-Type'', ''application/json'')]\<rparr>)"

definition handleGetLogs :: "env \<Rightarrow> Response io" where
  "handleGetLogs env =
     io_bind (if LOG_KV env then
                try_catch
                  (io_bind (KV_get ''history'') (\<lambda>data. parse_existing data))
                  (\<lambda>e. io_return (JArr []))
              else io_return (JArr [])) (\<lambda>history.
     io_return \<lparr>body = Text (JSON_stringify history),
                response_headers = [(''Content-Type'', ''application/json'')]\<rparr>)"

definition getHtml :: "env \<Rightarrow> content" where
  "getHtml env = Dashboard (truthy (KOYEB_TOKEN env)) (LOG_KV env)"

definition worker_fetch :: "request \<Rightarrow> env \<Rightarrow> Response io" where
  "worker_fetch request env =
     (if pathname request = ''/api/trigger'' then handleTrigger env
      else if pathname request = ''/api/logs'' then handleGetLogs env
      else io_return \<lparr>body = getHtml env,
                      response_headers = [(''Content-Type'', ''text/html;charset=UTF-8'')]\<rparr>)"

definition worker_scheduled :: "env \<Rightarrow> RunResult io" where
  "worker_scheduled env = keepAlive env ''Cron Scheduled''"

section \<open>Vocabulary of the properties\<close>

subsection \<open>JSON values as they read back\<close>

text \<open>
  What \<open>JSON_parse\<close> returns for the text \<open>JSON_stringify\<close> writes: the value itself,
  except that a number without a JSON form has become \<^verbatim>\<open>null\<close>. A value built from
  strings, booleans, arrays and objects only is left as it is.
\<close>

primrec normalise :: "json \<Rightarrow> json" where
  "normalise JNull = JNull"
| "normalise (JBool b) = JBool b"
| "normalise (JNum l) = (if lex_number l = Some (l, []) then JNum l else JNull)"
| "normalise (JStr s) = JStr s"
| "normalise (JArr vs) = JArr (map normalise vs)"
| "normalise (JObj ms) = JObj (map (map_prod id normalise) ms)"

text \<open>
  A text may follow a value directly if it does not continue a number; the first character
  of a written value is one of those that start a value.
\<close>

definition follow_ok :: "string \<Rightarrow> bool" where
  "follow_ok rest = (case rest of [] \<Rightarrow> True | c # r \<Rightarrow> \<not> is_number_char c)"

definition value_start :: "char \<Rightarrow> bool" where
  "value_start c = (c \<in> set ''ntf[{-0123456789'' \<or> c = CHR 0x22)"

text \<open>The text between the braces of a written object.\<close>

definition members_text :: "(string \<times> json) list \<Rightarrow> string" where
  "members_text ms = commas (map member_text (map (map_prod id JSON_stringify) ms))"

subsection \<open>The stored history\<close>

text \<open>
  The array \<^verbatim>\<open>saveLogs\<close> and \<^verbatim>\<open>handleGetLogs\<close> start from, for a value of the
  \<^verbatim>\<open>history\<close> key that is absent, empty or the text of a JSON array; \<open>None\<close> for
  any other stored text.
\<close>

definition history_array :: "string option \<Rightarrow> json list option" where
  "history_array stored =
     (case stored of
        None \<Rightarrow> Some []
      | Some t \<Rightarrow>
          if t = [] then Some []
          else (case JSON_parse t of Inr (JArr xs) \<Rightarrow> Some xs | _ \<Rightarrow> None))"

text \<open>
  A sequence of appends: \<^verbatim>\<open>saveLogs\<close> called once for each pair of messages and status,
  in order. \<open>records clk t rs\<close> are the records these calls build when the first of them
  reads the clock at tick \<open>t\<close>; each call reads it twice (the time of the record, then
  the time of last run).
\<close>

fun appends :: "env \<Rightarrow> (string list \<times> bool) list \<Rightarrow> world \<Rightarrow> world" where
  "appends env [] w = w"
| "appends env (r # rs) w = appends env rs (snd (saveLogs env (fst r) (snd r) w))"

fun records :: "(nat \<Rightarrow> instant) \<Rightarrow> nat \<Rightarrow> (string list \<times> bool) list \<Rightarrow> json list" where
  "records clk t [] = []"
| "records clk t (r # rs) = logEntry (toISOString (clk t)) (snd r) (fst r) # records clk (t + 2) rs"

subsection \<open>Example deployments and worlds\<close>

text \<open>
  Concrete inputs for the instances below: a clock that advances one second per
  reading, an empty world over a given store, fault schedule and network, and two
  deployments.
\<close>

definition example_clock :: "nat \<Rightarrow> instant" where
  "example_clock i =
     \<lparr>toISOString = ''2024-05-01T00:00:0'' @ string_of_nat i @ ''.000Z'',
      getTime = 1714521600000 + 1000 * int i\<rparr>"

definition example_world ::
  "(string \<rightharpoonup> string) \<Rightarrow> (nat \<Rightarrow> exn option) \<Rightarrow> (nat \<Rightarrow> exn + fetch_response) \<Rightarrow> world" where
  "example_world store faults network =
     \<lparr>kv = store, kv_ops = 0, kv_fault = faults, requests = [], net = network,
      ticks = 0, clock = example_clock, console = []\<rparr>"

definition no_faults :: "nat \<Rightarrow> exn option" where
  "no_faults i = None"

definition fault_at :: "nat \<Rightarrow> nat \<Rightarrow> exn option" where
  "fault_at k i = (if i = k then Some (Error ''KV operation failed'') else None)"

definition offline :: "nat \<Rightarrow> exn + fetch_response" where
  "offline i = Inl (Error ''Network connection lost.'')"

definition api_ok_app_offline :: "nat \<Rightarrow> exn + fetch_response" where
  "api_ok_app_offline i =
     (if i = 0 then
        Inr \<lparr>status_code = 200, statusText = ''OK'',
             json_body = Inr (JObj [(''user'', JObj [(''email'', JStr ''a@b.com'')])])\<rparr>
      else Inl (Error ''Network connection lost.''))"

definition api_500_app_ok :: "nat \<Rightarrow> exn + fetch_response" where
  "api_500_app_ok i =
     (if i = 0 then
        Inr \<lparr>status_code = 500, statusText = ''Internal Server Error'',
             json_body = Inl (SyntaxError ''Unexpected end of JSON input'')\<rparr>
      else
        Inr \<lparr>status_code = 200, statusText = ''OK'',
             json_body = Inl (SyntaxError ''Unexpected token < in JSON'')\<rparr>)"

definition example_env :: env where
  "example_env =
     \<lparr>KOYEB_TOKEN = Some ''secret'', KOYEB_APP_URL = Some ''https://app.example.com/'',
      LOG_KV = True\<rparr>"

definition env_without_token :: env where
  "env_without_token = \<lparr>KOYEB_TOKEN = None, KOYEB_APP_URL = None, LOG_KV = True\<rparr>"

section \<open>JSON text reads back\<close>

subsection \<open>Strings\<close>

lemma skip_ws_Cons: "\<not> is_ws c \<Longrightarrow> skip_ws (c # s) = c # s"
  by (simp add: skip_ws_def)

lemma hex_val_hex_digit: "d < 16 \<Longrightarrow> hex_val (hex_digit d) = Some d"
proof -
  assume "d < 16"
  then have "d \<in> set [0,1,2,3,4,5,6,7,8,9,10,11,12,13,14,15]" by (simp; arith)
  then show ?thesis
    by (auto simp: hex_val_def hex_digit_def is_digit_def)
qed

lemma prepend_Some [simp]: "prepend p (Some (s, r)) = Some (p @ s, r)"
  by (simp add: prepend_def)

lemma prepend_None [simp]: "prepend p None = None"
  by (simp add: prepend_def)

lemma control_escape:
  assumes "(of_char c :: nat) < 0x20"
  shows "parse_chars (CHR 0x5C # CHR ''u'' # CHR ''0'' # CHR ''0'' #
            hex_digit (of_char c div 16) # hex_digit (of_char c mod 16) # t) = prepend [c] (parse_chars t)"
proof -
  have a: "hex_val (hex_digit (of_char c div 16)) = Some (of_char c div 16)"
    using assms by (intro hex_val_hex_digit) simp
  have b: "hex_val (hex_digit (of_char c mod 16)) = Some (of_char c mod 16)"
    by (intro hex_val_hex_digit) simp
  have z: "hex_val (CHR ''0'') = Some 0" by (simp add: hex_val_def is_digit_def)
  have "utf8 (of_char c) = [c]" using assms by (simp add: utf8_def)
  then show ?thesis using assms a b z by simp
qed

lemma parse_chars_escape_char:
  "parse_chars (escape_char c @ t) = prepend [c] (parse_chars t)"
proof (cases "(of_char c :: nat) < 0x20")
  case True
  then have ne: "c \<noteq> CHR 0x22" "c \<noteq> CHR 0x5C" by auto
  show ?thesis
    using control_escape[OF True, of t] ne True
    by (auto simp: escape_char_def unescape_def simp del: parse_chars.simps) (simp_all add: unescape_def)
next
  case False
  then show ?thesis
    by (auto simp: escape_char_def unescape_def)
qed

lemma parse_chars_escaped:
  "parse_chars (concat (map escape_char s) @ CHR 0x22 # t) = Some (s, t)"
proof (induction s)
  case Nil
  then show ?case by simp
next
  case (Cons c s)
  have "parse_chars (concat (map escape_char (c # s)) @ CHR 0x22 # t)
        = parse_chars (escape_char c @ (concat (map escape_char s) @ CHR 0x22 # t))"
    by simp
  also have "\<dots> = prepend [c] (parse_chars (concat (map escape_char s) @ CHR 0x22 # t))"
    by (rule parse_chars_escape_char)
  finally show ?case using Cons.IH by simp
qed

subsection \<open>Numbers\<close>

lemma lex_number_self:
  assumes "lex_number l = Some (l, [])"
  shows "takeWhile is_number_char l = l" and "number_syntax l"
proof -
  let ?t = "takeWhile is_number_char l"
  from assms have "(if number_syntax ?t then Some (?t, dropWhile is_number_char l) else None)
                   = Some (l, [])"
    by (simp add: lex_number_def Let_def)
  then have "number_syntax ?t \<and> ?t = l"
    by (cases "number_syntax ?t") (simp_all del: takeWhile_eq_all_conv)
  then have a: "number_syntax ?t" and b: "?t = l" by blast+
  from b show "takeWhile is_number_char l = l" .
  from a b show "number_syntax l" by metis
qed

lemma lex_number_append:
  assumes "lex_number l = Some (l, [])" and "follow_ok rest"
  shows "lex_number (l @ rest) = Some (l, rest)"
proof -
  note tw = lex_number_self(1)[OF assms(1)] and syn = lex_number_self(2)[OF assms(1)]
  from tw have all: "\<forall>c\<in>set l. is_number_char c"
    by (simp add: takeWhile_eq_all_conv)
  have stop: "takeWhile is_number_char rest = []" "dropWhile is_number_char rest = rest"
    using assms(2) by (auto simp: follow_ok_def split: list.splits)
  from all stop have "takeWhile is_number_char (l @ rest) = l"
    "dropWhile is_number_char (l @ rest) = rest"
    by simp_all
  with syn show ?thesis by (simp add: lex_number_def)
qed

lemma number_head:
  assumes "lex_number l = Some (l, [])"
  shows "\<exists>c cs. l = c # cs \<and> is_number_char c"
proof -
  note tw = lex_number_self(1)[OF assms] and syn = lex_number_self(2)[OF assms]
  from syn obtain c cs where "l = c # cs" by (cases l) (auto simp: number_syntax_def)
  moreover from tw have "\<forall>c\<in>set l. is_number_char c" by (simp add: takeWhile_eq_all_conv)
  ultimately show ?thesis by auto
qed

lemma parse_number:
  assumes "lex_number l = Some (l, [])" and "follow_ok rest"
  shows "parse_value (Suc n) (l @ rest) = Some (JNum l, rest)"
proof -
  from number_head[OF assms(1)] obtain c cs where l: "l = c # cs" and c: "is_number_char c"
    by blast
  from c have "\<not> is_ws c" "c \<noteq> CHR 0x22" "c \<noteq> CHR ''[''" "c \<noteq> CHR ''{''"
    "c \<noteq> CHR ''n''" "c \<noteq> CHR ''t''" "c \<noteq> CHR ''f''"
    by (auto simp: is_number_char_def is_digit_def is_ws_def)
  moreover have "lex_number (c # cs @ rest) = Some (c # cs, rest)"
    using lex_number_append[OF assms] l by simp
  ultimately show ?thesis
    using l by (simp add: skip_ws_Cons)
qed

subsection \<open>Values\<close>

lemma stringify_head: "\<exists>c cs. JSON_stringify v = c # cs \<and> value_start c"
proof (cases v)
  case (JNum l)
  show ?thesis
  proof (cases "lex_number l = Some (l, [])")
    case True
    note syn = lex_number_self(2)[OF True]
    from syn obtain c cs where l: "l = c # cs" by (cases l) (auto simp: number_syntax_def)
    have "c = CHR ''-'' \<or> is_digit c"
    proof (cases "c = CHR ''-''")
      case False
      with syn l have ip: "int_part (c # cs)" by (simp add: number_syntax_def)
      have "is_digit c"
      proof (rule ccontr)
        assume "\<not> is_digit c"
        then have "takeWhile is_digit (c # cs) = []" by simp
        with ip show False by (simp add: int_part_def)
      qed
      then show ?thesis by simp
    qed simp
    then have "value_start c" by (auto simp: value_start_def is_digit_def)
    with l True JNum show ?thesis by simp
  next
    case False
    with JNum show ?thesis by (simp add: value_start_def)
  qed
qed (auto simp: value_start_def quote_def)

lemma value_start_facts:
  assumes "value_start c"
  shows "\<not> is_ws c" "c \<noteq> CHR '']''" "c \<noteq> CHR ''}''" "c \<noteq> CHR '',''" "c \<noteq> CHR '':''"
  using assms by (auto simp: value_start_def is_ws_def)

lemma follow_ok_simps [simp]:
  "follow_ok []" "follow_ok (CHR '','' # r)" "follow_ok (CHR '']'' # r)" "follow_ok (CHR ''}'' # r)"
  by (simp_all add: follow_ok_def is_number_char_def is_digit_def)

lemma commas_head:
  assumes "vs \<noteq> []"
  shows "\<exists>d ds. commas (map JSON_stringify vs) @ t = d # ds \<and> value_start d"
proof -
  from assms obtain v vs' where vs: "vs = v # vs'" by (cases vs) auto
  obtain c cs where c: "JSON_stringify v = c # cs" "value_start c"
    using stringify_head by blast
  show ?thesis
    using vs c by (cases vs') auto
qed

lemma parse_elements_stringify:
  assumes "\<And>v n rest. v \<in> set vs \<Longrightarrow> length (JSON_stringify v) \<le> n \<Longrightarrow> follow_ok rest \<Longrightarrow>
             parse_value n (JSON_stringify v @ rest) = Some (normalise v, rest)"
    and "vs \<noteq> []"
    and "length (commas (map JSON_stringify vs)) < n"
  shows "parse_elements n (commas (map JSON_stringify vs) @ CHR '']'' # rest)
         = Some (map normalise vs, rest)"
  using assms
proof (induction vs arbitrary: n)
  case Nil
  then show ?case by simp
next
  case (Cons v vs)
  from Cons.prems(3) obtain n' where n: "n = Suc n'" by (cases n) auto
  show ?case
  proof (cases vs)
    case Nil
    have "parse_value n' (JSON_stringify v @ CHR '']'' # rest) = Some (normalise v, CHR '']'' # rest)"
      using Cons.prems(3) Nil n by (intro Cons.prems(1)) auto
    then show ?thesis
      using Nil n by (simp add: skip_ws_Cons is_ws_def)
  next
    case (Cons t ts)
    let ?tail = "commas (map JSON_stringify vs) @ CHR '']'' # rest"
    have len: "length (JSON_stringify v) \<le> n'" "length (commas (map JSON_stringify vs)) < n'"
      using Cons.prems(3) Cons n \<open>n = Suc n'\<close> by auto
    have "parse_value n' (JSON_stringify v @ CHR '','' # ?tail) = Some (normalise v, CHR '','' # ?tail)"
      using len by (intro Cons.prems(1)) auto
    moreover have "parse_elements n' ?tail = Some (map normalise vs, rest)"
      using len Cons by (intro Cons.IH Cons.prems(1)) auto
    ultimately show ?thesis
      using Cons n by (simp add: skip_ws_Cons is_ws_def)
  qed
qed

lemma members_text_simps:
  "members_text [] = []"
  "members_text [(k, v)] = quote k @ CHR '':'' # JSON_stringify v"
  "members_text ((k, v) # m # ms) =
     quote k @ CHR '':'' # JSON_stringify v @ CHR '','' # members_text (m # ms)"
  by (simp_all add: members_text_def member_text_def)

lemma parse_member_key:
  "parse_members (Suc n) (quote k @ CHR '':'' # t) =
     (case parse_value n t of
        None \<Rightarrow> None
      | Some (v, r3) \<Rightarrow>
          (case skip_ws r3 of
             [] \<Rightarrow> None
           | d # r4 \<Rightarrow>
               if d = CHR '','' then
                 (case parse_members n r4 of
                    None \<Rightarrow> None
                  | Some (ms, r5) \<Rightarrow> Some ((k, v) # ms, r5))
               else if d = CHR ''}'' then Some ([(k, v)], r4)
               else None))"
  by (simp add: quote_def skip_ws_Cons is_ws_def parse_chars_escaped)

lemma parse_members_stringify:
  assumes "\<And>k v n rest. (k, v) \<in> set ms \<Longrightarrow> length (JSON_stringify v) \<le> n \<Longrightarrow> follow_ok rest \<Longrightarrow>
             parse_value n (JSON_stringify v @ rest) = Some (normalise v, rest)"
    and "ms \<noteq> []"
    and "length (members_text ms) < n"
  shows "parse_members n (members_text ms @ CHR ''}'' # rest)
         = Some (map (map_prod id normalise) ms, rest)"
  using assms
proof (induction ms arbitrary: n)
  case Nil
  then show ?case by simp
next
  case (Cons m ms)
  obtain k v where m: "m = (k, v)" by (cases m)
  from Cons.prems(3) obtain n' where n: "n = Suc n'" by (cases n) auto
  show ?case
  proof (cases ms)
    case Nil
    have "parse_value n' (JSON_stringify v @ CHR ''}'' # rest) = Some (normalise v, CHR ''}'' # rest)"
      using Cons.prems(3) Nil n m by (intro Cons.prems(1)[of k]) (auto simp: members_text_simps)
    then show ?thesis
      using Nil n m by (simp add: members_text_simps parse_member_key skip_ws_Cons is_ws_def del: parse_members.simps)
  next
    case later: (Cons m' ms')
    let ?tail = "members_text ms @ CHR ''}'' # rest"
    have len: "length (JSON_stringify v) \<le> n'" "length (members_text ms) < n'"
      using Cons.prems(3) later n m by (auto simp: members_text_simps)
    have "parse_value n' (JSON_stringify v @ CHR '','' # ?tail) = Some (normalise v, CHR '','' # ?tail)"
      using len m by (intro Cons.prems(1)[of k]) auto
    moreover have "parse_members n' ?tail = Some (map (map_prod id normalise) ms, rest)"
      using len later by (intro Cons.IH Cons.prems(1)) auto
    ultimately show ?thesis
      using later n m by (simp add: members_text_simps parse_member_key skip_ws_Cons is_ws_def id_def del: parse_members.simps)
  qed
qed

lemma parse_value_stringify:
  "length (JSON_stringify v) \<le> n \<Longrightarrow> follow_ok rest \<Longrightarrow>
     parse_value n (JSON_stringify v @ rest) = Some (normalise v, rest)"
proof (induction v arbitrary: n rest)
  case JNull
  then obtain n' where "n = Suc n'" by (cases n) auto
  then show ?case by (simp add: skip_ws_Cons is_ws_def)
next
  case (JBool b)
  then obtain n' where "n = Suc n'" by (cases n) (auto split: if_splits)
  then show ?case by (simp add: skip_ws_Cons is_ws_def)
next
  case (JNum l)
  then obtain n' where n: "n = Suc n'"
    by (cases n) (auto simp: lex_number_def number_syntax_def split: if_splits)
  show ?case
  proof (cases "lex_number l = Some (l, [])")
    case True
    then show ?thesis using parse_number[OF True JNum.prems(2), of n'] n by simp
  next
    case False
    then show ?thesis using n by (simp add: skip_ws_Cons is_ws_def)
  qed
next
  case (JStr s)
  then obtain n' where "n = Suc n'" by (cases n) (auto simp: quote_def)
  then show ?case by (simp add: quote_def skip_ws_Cons is_ws_def parse_chars_escaped)
next
  case (JArr vs)
  from JArr.prems(1) obtain n' where n: "n = Suc n'" by (cases n) auto
  show ?case
  proof (cases "vs = []")
    case True
    then show ?thesis using n by (simp add: skip_ws_Cons is_ws_def)
  next
    case False
    let ?r = "commas (map JSON_stringify vs) @ CHR '']'' # rest"
    obtain d ds where d: "?r = d # ds" "value_start d"
      using commas_head[OF False] by blast
    have "parse_elements n' ?r = Some (map normalise vs, rest)"
      using JArr.prems(1) n False by (intro parse_elements_stringify JArr.IH) auto
    then show ?thesis
      using n d value_start_facts[OF d(2)] by (simp add: skip_ws_Cons is_ws_def)
  qed
next
  case (JObj ms)
  from JObj.prems(1) obtain n' where n: "n = Suc n'" by (cases n) auto
  have shape: "JSON_stringify (JObj ms) = CHR ''{'' # members_text ms @ ''}''"
    by (simp add: members_text_def)
  show ?case
  proof (cases "ms = []")
    case True
    then show ?thesis using n by (simp add: skip_ws_Cons is_ws_def)
  next
    case False
    let ?r = "members_text ms @ CHR ''}'' # rest"
    from False obtain k v ms' where ms: "ms = (k, v) # ms'" by (cases ms) auto
    have d: "\<exists>ds. ?r = CHR 0x22 # ds"
      using ms by (cases ms') (auto simp: members_text_simps quote_def)
    have ih: "\<And>k v n rest. (k, v) \<in> set ms \<Longrightarrow> length (JSON_stringify v) \<le> n \<Longrightarrow> follow_ok rest \<Longrightarrow>
             parse_value n (JSON_stringify v @ rest) = Some (normalise v, rest)"
      by (rule JObj.IH) auto
    have "parse_members n' ?r = Some (map (map_prod id normalise) ms, rest)"
      using JObj.prems(1) n False shape by (intro parse_members_stringify ih) auto
    then show ?thesis
      using n d shape by (auto simp add: skip_ws_Cons is_ws_def simp del: JSON_stringify.simps)
  qed
qed

text \<open>
  Reading what was written gives the value back, up to the numbers without a JSON form.
\<close>

lemma JSON_parse_stringify: "JSON_parse (JSON_stringify v) = Inr (normalise v)"
  using parse_value_stringify[of v "Suc (length (JSON_stringify v))" "[]"]
  by (simp add: JSON_parse_def skip_ws_def)

lemma normalise_logEntry: "normalise (logEntry t b l) = logEntry t b l"
  by (simp add: logEntry_def comp_def)

lemma normalise_idem: "normalise (normalise v) = normalise v"
  by (induction v) (auto simp: lex_number_def)

lemma normalise_RunResult: "normalise (RunResult_json r) = RunResult_json r"
  by (simp add: RunResult_json_def comp_def)

lemma stringify_inject:
  assumes "JSON_stringify a = JSON_stringify b" and "normalise a = a" and "normalise b = b"
  shows "a = b"
proof -
  have "Inr (normalise a) = (Inr (normalise b) :: exn + json)"
    using assms(1) JSON_parse_stringify[of a] JSON_parse_stringify[of b] by simp
  with assms(2,3) show ?thesis by simp
qed


lemma JSON_parse_not_json: "JSON_parse ''not json'' = Inl (SyntaxError ''Unexpected token in JSON'')"
  by (simp add: JSON_parse_def skip_ws_def is_ws_def lex_number_def is_number_char_def
        is_digit_def number_syntax_def)

section \<open>Runs of the worker\<close>

subsection \<open>\<^verbatim>\<open>saveLogs\<close>\<close>

lemmas io_defs = io_bind_def io_return_def io_result_def try_catch_def

lemmas prim_defs = KV_get_def KV_put_def fetch_def Date_toISOString_def Date_now_def console_error_def response_json_def

lemmas example_defs = example_env_def env_without_token_def example_world_def no_faults_def
  fault_at_def offline_def api_ok_app_offline_def api_500_app_ok_def example_clock_def

lemma saveLogs_returns: "saveLogs env newLogs status w = (r, w') \<Longrightarrow> r = Inr ()"
  by (auto simp add: saveLogs_def try_catch_def console_error_def io_return_def split: prod.splits sum.splits if_splits)

lemma saveLogs_pair: "saveLogs env newLogs status w = (Inr (), snd (saveLogs env newLogs status w))"
  using saveLogs_returns[of env newLogs status w] by (cases "saveLogs env newLogs status w") simp

lemma saveLogs_frame:
  "saveLogs env newLogs status w = (r, w') \<Longrightarrow> 
    requests w' = requests w \<and> net w' = net w \<and> clock w' = clock w \<and> kv_fault w' = kv_fault w"
  by (auto simp: saveLogs_def io_defs prim_defs parse_existing_def Let_def split: prod.splits sum.splits option.splits if_splits)

lemma limit_take: "limit xs = take LOG_LIMIT xs"
  by (simp add: limit_def)

lemma take_limit_Cons: "take LOG_LIMIT (e # old) = e # take 19 old"
  by (simp add: LOG_LIMIT_def take_Cons')


lemma take_append_take: "take n (xs @ take n ys) = take n (xs @ ys)"
  by (induction xs arbitrary: n) (auto simp: take_Cons' )

lemma history_array_stringify:
  "history_array (Some (JSON_stringify (JArr xs))) = Some (map normalise xs)"
  by (simp add: history_array_def JSON_parse_stringify del: JSON_stringify.simps) simp

lemma parse_existing_array:
  assumes "history_array stored = Some old"
  shows "parse_existing stored w = (Inr (JArr old), w)"
  using assms
  by (auto simp: history_array_def parse_existing_def io_defs split: option.splits if_splits sum.splits json.splits)

lemma saveLogs_run:
  assumes "LOG_KV env"
    and "kv_fault w (kv_ops w) = None" and "kv_fault w (Suc (kv_ops w)) = None"
    and "kv_fault w (Suc (Suc (kv_ops w))) = None"
    and "history_array (kv w ''history'') = Some old"
  shows "saveLogs env newLogs status w =
           (Inr (),
            w\<lparr>kv_ops := kv_ops w + 3, ticks := ticks w + 2,
              kv := (kv w)(''history'' \<mapsto>
                        JSON_stringify (JArr (take LOG_LIMIT
                          (logEntry (toISOString (clock w (ticks w))) status newLogs # old))),
                      ''last_run'' \<mapsto> toISOString (clock w (Suc (ticks w))))\<rparr>)"
  using assms
  by (simp add: saveLogs_def io_defs prim_defs parse_existing_array limit_take Let_def
         del: JSON_stringify.simps)

lemma saveLogs_history:
  assumes "LOG_KV env"
    and "kv_fault w (kv_ops w) = None" and "kv_fault w (Suc (kv_ops w)) = None"
    and "history_array (kv w ''history'') = Some old"
  shows "kv (snd (saveLogs env newLogs status w)) ''history'' =
           Some (JSON_stringify (JArr (take LOG_LIMIT
                          (logEntry (toISOString (clock w (ticks w))) status newLogs # old))))"
  using assms
  by (simp add: saveLogs_def io_defs prim_defs parse_existing_array limit_take Let_def
         del: JSON_stringify.simps split: option.splits)

lemma handleGetLogs_array:
  assumes "LOG_KV env" and "kv_fault w (kv_ops w) = None"
    and "history_array (kv w ''history'') = Some xs"
  shows "fst (handleGetLogs env w) =
           Inr \<lparr>body = Text (JSON_stringify (JArr xs)),
                response_headers = [(''Content-Type'', ''application/json'')]\<rparr>"
  using assms
  by (simp add: handleGetLogs_def io_defs prim_defs parse_existing_array
           del: JSON_stringify.simps)

subsection \<open>Sequences of appends\<close>

lemma records_normal: "v \<in> set (records clk t rs) \<Longrightarrow> normalise v = v"
  by (induction clk t rs rule: records.induct) (auto simp: normalise_logEntry)

lemma length_records: "length (records clk t rs) = length rs"
  by (induction clk t rs rule: records.induct) auto

lemma saveLogs_healthy_frame:
  assumes "LOG_KV env" and "\<forall>i. kv_fault w i = None"
    and "history_array (kv w ''history'') = Some old"
  shows "kv (snd (saveLogs env newLogs status w)) ''history'' =
           Some (JSON_stringify (JArr (take LOG_LIMIT
                   (logEntry (toISOString (clock w (ticks w))) status newLogs # old))))"
    and "kv_fault (snd (saveLogs env newLogs status w)) = kv_fault w"
    and "clock (snd (saveLogs env newLogs status w)) = clock w"
    and "ticks (snd (saveLogs env newLogs status w)) = ticks w + 2"
    and "console (snd (saveLogs env newLogs status w)) = console w"
  using assms by (simp_all add: saveLogs_run del: JSON_stringify.simps)

lemma appends_frame:
  "kv_fault (appends env rs w) = kv_fault w \<and> clock (appends env rs w) = clock w"
proof (induction rs arbitrary: w)
  case Nil
  show ?case by simp
next
  case (Cons r rs)
  have "kv_fault (snd (saveLogs env (fst r) (snd r) w)) = kv_fault w
        \<and> clock (snd (saveLogs env (fst r) (snd r) w)) = clock w"
    using saveLogs_frame[of env "fst r" "snd r" w] by (cases "saveLogs env (fst r) (snd r) w") simp
  with Cons.IH[of "snd (saveLogs env (fst r) (snd r) w)"] show ?case by simp
qed

lemma appends_history:
  assumes "LOG_KV env" and "\<forall>i. kv_fault w i = None"
    and "history_array (kv w ''history'') = Some h"
    and "\<forall>v\<in>set h. normalise v = v" and "length h \<le> LOG_LIMIT"
  shows "history_array (kv (appends env rs w) ''history'') =
           Some (take LOG_LIMIT (rev (records (clock w) (ticks w) rs) @ h))
         \<and> console (appends env rs w) = console w"
  using assms
proof (induction rs arbitrary: w h)
  case Nil
  then show ?case by simp
next
  case (Cons r rs)
  let ?w1 = "snd (saveLogs env (fst r) (snd r) w)"
  let ?e = "logEntry (toISOString (clock w (ticks w))) (snd r) (fst r)"
  let ?h1 = "take LOG_LIMIT (?e # h)"
  note step = saveLogs_healthy_frame[OF Cons.prems(1,2,3), of "fst r" "snd r"]
  have normal: "\<forall>v\<in>set ?h1. normalise v = v"
    using Cons.prems(4) by (auto simp: normalise_logEntry dest!: in_set_takeD)
  then have "map normalise ?h1 = ?h1" by (simp add: map_idI)
  then have h1: "history_array (kv ?w1 ''history'') = Some ?h1"
    using step(1) by (simp add: history_array_stringify del: JSON_stringify.simps)
  have "history_array (kv (appends env rs ?w1) ''history'') =
          Some (take LOG_LIMIT (rev (records (clock ?w1) (ticks ?w1) rs) @ ?h1))
        \<and> console (appends env rs ?w1) = console ?w1"
    using Cons.prems(1,2) step(2) h1 normal by (intro Cons.IH) auto
  then show ?case
    using step(3,4,5) by (simp add: take_append_take)
qed

subsection \<open>\<^verbatim>\<open>keepAlive\<close>\<close>

lemma check_api_run:
  "check_api env ts lg w =
     (Inr (case net w (length (requests w)) of
             Inl e \<Rightarrow> (False, lg @ [log_api_exception ts (message e)])
           | Inr r \<Rightarrow>
               if ok r then
                 (case json_body r of
                    Inl e \<Rightarrow> (False, lg @ [log_api_exception ts (message e)])
                  | Inr data \<Rightarrow>
                      (case user_email data of
                         Inl e \<Rightarrow> (False, lg @ [log_api_exception ts (message e)])
                       | Inr email \<Rightarrow>
                           (True, lg @ [log_api_ok ts (getTime (clock w (Suc (ticks w))) - getTime (clock w (ticks w))) email])))
               else (False, lg @ [log_api_failed ts (status_code r) (statusText r)])),
      w\<lparr>ticks := (case net w (length (requests w)) of Inl e \<Rightarrow> ticks w + 1 | Inr r \<Rightarrow> ticks w + 2),
        requests := requests w @ [\<lparr>url = ''https://app.koyeb.com/v1/account/profile'',
                        headers = [(''Authorization'', ''Bearer '' @ the (KOYEB_TOKEN env)),
                                   (''Content-Type'', ''application/json'')]\<rparr>]\<rparr>)"
  by (auto simp: check_api_def io_defs prim_defs split: sum.splits prod.splits)

lemma ping_app_run:
  "ping_app env ts lg w =
     (Inr (case net w (length (requests w)) of
             Inl e \<Rightarrow> lg @ [log_ping_failed ts (message e)]
           | Inr res \<Rightarrow>
               lg @ [log_ping ts (status_code res)
                       (getTime (clock w (Suc (ticks w))) - getTime (clock w (ticks w)))]),
      w\<lparr>ticks := (case net w (length (requests w)) of Inl e \<Rightarrow> ticks w + 1 | Inr r \<Rightarrow> ticks w + 2),
        requests := requests w @ [\<lparr>url = the (KOYEB_APP_URL env), headers = []\<rparr>]\<rparr>)"
  by (auto simp: ping_app_def io_defs prim_defs split: sum.splits prod.splits)

lemma check_api_cases:
  obtains b m w1 where "check_api env ts lg w = (Inr (b, lg @ [m]), w1)"
    and "kv w1 = kv w" "kv_ops w1 = kv_ops w" "kv_fault w1 = kv_fault w" "clock w1 = clock w"
    and "net w1 = net w" "length (requests w1) = Suc (length (requests w))" "ticks w < ticks w1"
proof -
  let ?w1 = "snd (check_api env ts lg w)"
  have "\<exists>b m. check_api env ts lg w = (Inr (b, lg @ [m]), ?w1)"
    by (auto simp add: check_api_run split: sum.splits)
  moreover have "kv ?w1 = kv w" "kv_ops ?w1 = kv_ops w" "kv_fault ?w1 = kv_fault w" "clock ?w1 = clock w"
      "net ?w1 = net w" "length (requests ?w1) = Suc (length (requests w))" "ticks w < ticks ?w1"
    by (simp_all add: check_api_run split: sum.splits)
  ultimately show thesis using that by blast
qed

lemma ping_app_cases:
  obtains m w1 where "ping_app env ts lg w = (Inr (lg @ [m]), w1)"
    and "kv w1 = kv w" "kv_ops w1 = kv_ops w" "kv_fault w1 = kv_fault w" "clock w1 = clock w"
    and "net w1 = net w" "ticks w < ticks w1"
proof -
  let ?w1 = "snd (ping_app env ts lg w)"
  have "\<exists>m. ping_app env ts lg w = (Inr (lg @ [m]), ?w1)"
    by (auto simp add: ping_app_run split: sum.splits)
  moreover have "kv ?w1 = kv w" "kv_ops ?w1 = kv_ops w" "kv_fault ?w1 = kv_fault w" "clock ?w1 = clock w"
      "net ?w1 = net w" "ticks w < ticks ?w1"
    by (simp_all add: ping_app_run split: sum.splits)
  ultimately show thesis using that by blast
qed

lemma ping_step_returns:
  "\<exists>lg2 w2. (if truthy (KOYEB_APP_URL env) then ping_app env ts lg1 w1 else (Inr lg1, w1))
             = (Inr lg2, w2)"
  by (simp add: ping_app_run)


lemma keepAlive_no_token_run:
  assumes "\<not> truthy (KOYEB_TOKEN env)"
  shows "keepAlive env source w =
     (Inr \<lparr>success = False,
           logs = [log_start (toISOString (clock w (ticks w))) source,
                   log_no_token (toISOString (clock w (ticks w)))]\<rparr>,
      snd (saveLogs env [log_start (toISOString (clock w (ticks w))) source,
                         log_no_token (toISOString (clock w (ticks w)))] False
             (w\<lparr>ticks := Suc (ticks w)\<rparr>)))"
proof -
  let ?lg = "[log_start (toISOString (clock w (ticks w))) source,
              log_no_token (toISOString (clock w (ticks w)))]"
  let ?w0 = "w\<lparr>ticks := Suc (ticks w)\<rparr>"
  obtain w3 where sv: "saveLogs env ?lg False ?w0 = (Inr (), w3)"
    using saveLogs_pair by blast
  then have "snd (saveLogs env ?lg False ?w0) = w3" by simp
  moreover have "keepAlive env source w = (Inr \<lparr>success = False, logs = ?lg\<rparr>, w3)"
    using assms sv by (simp add: keepAlive_def io_bind_def Date_toISOString_def Let_def io_return_def)
  ultimately show ?thesis by simp
qed

lemma keepAlive_token_run:
  assumes "truthy (KOYEB_TOKEN env)"
    and "check_api env (toISOString (clock w (ticks w)))
           [log_start (toISOString (clock w (ticks w))) source] (w\<lparr>ticks := Suc (ticks w)\<rparr>)
         = (Inr (b, lg1), w1)"
    and "(if truthy (KOYEB_APP_URL env) then ping_app env (toISOString (clock w (ticks w))) lg1 w1
          else (Inr lg1, w1)) = (Inr lg2, w2)"
  shows "keepAlive env source w = (Inr \<lparr>success = b, logs = lg2\<rparr>, snd (saveLogs env lg2 b w2))"
proof -
  obtain w3 where sv: "saveLogs env lg2 b w2 = (Inr (), w3)"
    using saveLogs_pair by blast
  have "keepAlive env source w = (Inr \<lparr>success = b, logs = lg2\<rparr>, w3)"
  proof (cases "truthy (KOYEB_APP_URL env)")
    case False
    with assms(3) have "lg2 = lg1" "w2 = w1" by simp_all
    with assms(1,2) False sv show ?thesis
      by (simp add: keepAlive_def io_bind_def Date_toISOString_def Let_def io_return_def)
  next
    case True
    with assms(3) have "ping_app env (toISOString (clock w (ticks w))) lg1 w1 = (Inr lg2, w2)"
      by simp
    with assms(1,2) True sv show ?thesis
      by (simp add: keepAlive_def io_bind_def Date_toISOString_def Let_def io_return_def)
  qed
  with sv show ?thesis by simp
qed

lemma keepAlive_saves:
  "\<exists>r w1. keepAlive env source w = (Inr r, snd (saveLogs env (logs r) (success r) w1)) \<and>
      kv w1 = kv w \<and> kv_ops w1 = kv_ops w \<and> kv_fault w1 = kv_fault w \<and> clock w1 = clock w \<and>
      ticks w < ticks w1"
proof (cases "truthy (KOYEB_TOKEN env)")
  case False
  let ?lg = "[log_start (toISOString (clock w (ticks w))) source,
              log_no_token (toISOString (clock w (ticks w)))]"
  show ?thesis
    using keepAlive_no_token_run[OF False, of source w]
    by (intro exI[of _ "\<lparr>success = False, logs = ?lg\<rparr>"]
              exI[of _ "w\<lparr>ticks := Suc (ticks w)\<rparr>"]) simp
next
  case True
  let ?ts = "toISOString (clock w (ticks w))"
  let ?w0 = "w\<lparr>ticks := Suc (ticks w)\<rparr>"
  obtain b m w1
    where api: "check_api env ?ts [log_start ?ts source] ?w0
                = (Inr (b, [log_start ?ts source] @ [m]), w1)"
      and f1: "kv w1 = kv ?w0" "kv_ops w1 = kv_ops ?w0" "kv_fault w1 = kv_fault ?w0"
        "clock w1 = clock ?w0" "ticks ?w0 < ticks w1"
    by (rule check_api_cases[of env ?ts "[log_start ?ts source]" ?w0]) blast
  let ?lg1 = "[log_start ?ts source] @ [m]"
  obtain lg2 w2
    where ping: "(if truthy (KOYEB_APP_URL env) then ping_app env ?ts ?lg1 w1
                  else (Inr ?lg1, w1)) = (Inr lg2, w2)"
      and f2: "kv w2 = kv w1" "kv_ops w2 = kv_ops w1" "kv_fault w2 = kv_fault w1"
        "clock w2 = clock w1" "ticks w1 \<le> ticks w2"
  proof (cases "truthy (KOYEB_APP_URL env)")
    case False
    then show ?thesis using that[of ?lg1 w1] by simp
  next
    case True
    obtain m2 w2 where "ping_app env ?ts ?lg1 w1 = (Inr (?lg1 @ [m2]), w2)"
      "kv w2 = kv w1" "kv_ops w2 = kv_ops w1" "kv_fault w2 = kv_fault w1"
      "clock w2 = clock w1" "ticks w1 < ticks w2"
      by (rule ping_app_cases[of env ?ts ?lg1 w1]) blast
    then show ?thesis using that[of "?lg1 @ [m2]" w2] True by simp
  qed
  note run = keepAlive_token_run[OF True api ping]
  show ?thesis
    using run f1 f2 by (intro exI[of _ "\<lparr>success = b, logs = lg2\<rparr>"] exI[of _ w2]) simp
qed

lemma keepAlive_record:
  assumes "LOG_KV env"
    and "kv_fault w (kv_ops w) = None" and "kv_fault w (Suc (kv_ops w)) = None"
    and "history_array (kv w ''history'') = Some old"
  shows "\<exists>r t. fst (keepAlive env source w) = Inr r \<and>
           kv (snd (keepAlive env source w)) ''history'' =
             Some (JSON_stringify (JArr (logEntry t (success r) (logs r) # take 19 old)))"
proof -
  obtain r w1 where run: "keepAlive env source w = (Inr r, snd (saveLogs env (logs r) (success r) w1))"
    and same: "kv w1 = kv w" "kv_ops w1 = kv_ops w" "kv_fault w1 = kv_fault w"
    using keepAlive_saves by blast
  have "kv (snd (saveLogs env (logs r) (success r) w1)) ''history'' =
          Some (JSON_stringify (JArr (take LOG_LIMIT
             (logEntry (toISOString (clock w1 (ticks w1))) (success r) (logs r) # old))))"
    using assms same by (intro saveLogs_history) simp_all
  then show ?thesis
    using run by (auto simp add: take_limit_Cons simp del: JSON_stringify.simps)
qed


section \<open>The claims\<close>

subsection \<open>C1: the history is bounded and newest-first\<close>

text \<open>
  Claim C1. Start from a store without a \<^verbatim>\<open>history\<close> key, bound as \<^verbatim>\<open>LOG_KV\<close>, whose
  operations all succeed, and append \<open>N\<close> records with \<^verbatim>\<open>saveLogs\<close>. Then
  \<^verbatim>\<open>handleGetLogs\<close> returns the JSON text of the last \<open>min N 20\<close> records built, the
  newest first: the reversed sequence of the records, cut after \<open>LOG_LIMIT = 20\<close>
  entries. The text parses back to exactly that array, whose length is \<open>min N 20\<close>, and
  nothing has been printed on the console: the older records are dropped without
  notice.
\<close>

theorem history_bounded_newest_first:
  assumes "LOG_KV env" and "kv w ''history'' = None" and "\<forall>i. kv_fault w i = None"
  shows "fst (handleGetLogs env (appends env rs w)) =
           Inr \<lparr>body = Text (JSON_stringify
                         (JArr (take LOG_LIMIT (rev (records (clock w) (ticks w) rs))))),
                response_headers = [(''Content-Type'', ''application/json'')]\<rparr>
         \<and> JSON_parse (JSON_stringify (JArr (take LOG_LIMIT (rev (records (clock w) (ticks w) rs)))))
             = Inr (JArr (take LOG_LIMIT (rev (records (clock w) (ticks w) rs))))
         \<and> length (take LOG_LIMIT (rev (records (clock w) (ticks w) rs))) = min (length rs) 20
         \<and> console (appends env rs w) = console w"
proof -
  let ?xs = "take LOG_LIMIT (rev (records (clock w) (ticks w) rs))"
  have "history_array (kv w ''history'') = Some []"
    using assms(2) by (simp add: history_array_def)
  then have inv: "history_array (kv (appends env rs w) ''history'') = Some ?xs
                  \<and> console (appends env rs w) = console w"
    using appends_history[OF assms(1) assms(3), of "[]" rs] by simp
  then have "history_array (kv (appends env rs w) ''history'') = Some ?xs" by simp
  moreover have "kv_fault (appends env rs w) (kv_ops (appends env rs w)) = None"
    using assms(3) by (simp add: appends_frame)
  ultimately have a: "fst (handleGetLogs env (appends env rs w)) =
           Inr \<lparr>body = Text (JSON_stringify (JArr ?xs)),
                response_headers = [(''Content-Type'', ''application/json'')]\<rparr>"
    using assms(1) by (intro handleGetLogs_array)
  have "\<forall>v\<in>set ?xs. normalise v = v"
    by (auto dest!: in_set_takeD simp: records_normal)
  then have "map normalise ?xs = ?xs" by (simp add: map_idI)
  then have b: "JSON_parse (JSON_stringify (JArr ?xs)) = Inr (JArr ?xs)"
    by (simp add: JSON_parse_stringify del: JSON_stringify.simps)
  have c: "length ?xs = min (length rs) 20"
    by (simp add: length_records LOG_LIMIT_def min.commute)
  from a b c inv show ?thesis by simp
qed

text \<open>
  An instance with two appends: the second record comes first.
\<close>

theorem history_bounded_newest_first_witness:
  "fst (handleGetLogs example_env
          (appends example_env [([''first''], True), ([''second''], False)]
             (example_world Map.empty no_faults offline))) =
     Inr \<lparr>body = Text (JSON_stringify
                   (JArr [logEntry ''2024-05-01T00:00:02.000Z'' False [''second''],
                          logEntry ''2024-05-01T00:00:00.000Z'' True [''first'']])),
          response_headers = [(''Content-Type'', ''application/json'')]\<rparr>"
  using history_bounded_newest_first
          [of example_env "example_world Map.empty no_faults offline"
              "[([''first''], True), ([''second''], False)]"]
  by (simp add: example_defs LOG_LIMIT_def del: JSON_stringify.simps)


subsection \<open>C2: a run without the token\<close>

text \<open>
  Claim C2, amended. When \<^verbatim>\<open>KOYEB_TOKEN\<close> is not set (undefined or empty),
  \<^verbatim>\<open>keepAlive\<close> returns \<^verbatim>\<open>success = false\<close> and sends no network request. Its
  messages are two, not one: the message that the task started, which every run logs
  first, and then the one message about the missing token.
\<close>

theorem keepAlive_without_token:
  assumes "\<not> truthy (KOYEB_TOKEN env)"
  shows "fst (keepAlive env source w) =
           Inr \<lparr>success = False,
                logs = [log_start (toISOString (clock w (ticks w))) source,
                        log_no_token (toISOString (clock w (ticks w)))]\<rparr>
         \<and> requests (snd (keepAlive env source w)) = requests w"
proof -
  let ?lg = "[log_start (toISOString (clock w (ticks w))) source,
              log_no_token (toISOString (clock w (ticks w)))]"
  let ?w0 = "w\<lparr>ticks := Suc (ticks w)\<rparr>"
  have "requests (snd (saveLogs env ?lg False ?w0)) = requests ?w0"
    using saveLogs_frame[of env ?lg False ?w0] by (cases "saveLogs env ?lg False ?w0") simp
  then show ?thesis
    by (simp add: keepAlive_no_token_run[OF assms])
qed

theorem keepAlive_without_token_witness:
  "\<not> truthy (KOYEB_TOKEN env_without_token)
   \<and> map_sum id success
        (fst (keepAlive env_without_token ''Manual'' (example_world Map.empty no_faults offline)))
       = Inr False
   \<and> requests (snd (keepAlive env_without_token ''Manual''
                        (example_world Map.empty no_faults offline))) = []"
  using keepAlive_without_token
          [of env_without_token "''Manual''" "example_world Map.empty no_faults offline"]
  by (simp add: example_defs)

text \<open>
  The claim as stated asks for exactly one message; a run without the token returns two.
\<close>

theorem keepAlive_without_token_counterexample:
  "map_sum id (length \<circ> logs)
     (fst (keepAlive env_without_token ''Manual'' (example_world Map.empty no_faults offline)))
   = Inr 2"
  by (simp add: keepAlive_no_token_run example_defs)


subsection \<open>C3: the trigger route\<close>

text \<open>
  Claim C3, amended. A request whose path is \<^verbatim>\<open>/api/trigger\<close> runs \<^verbatim>\<open>keepAlive\<close>
  with the source \<^verbatim>\<open>Web Dashboard\<close> (not \<^verbatim>\<open>manual\<close>), and answers with the JSON text of
  the result of that run, its success flag and its messages, which parses back to that
  result. The run itself appends its record: when the store is bound, its read and its
  first write succeed and the stored history is readable, the history then starts with
  the record of this result.
\<close>

theorem trigger_runs_and_reports:
  assumes "pathname request = ''/api/trigger''"
  shows "\<exists>r. fst (keepAlive env ''Web Dashboard'' w) = Inr r
           \<and> worker_fetch request env w =
               (Inr \<lparr>body = Text (JSON_stringify (RunResult_json r)),
                     response_headers = [(''Content-Type'', ''application/json'')]\<rparr>,
                snd (keepAlive env ''Web Dashboard'' w))
           \<and> JSON_parse (JSON_stringify (RunResult_json r)) = Inr (RunResult_json r)
           \<and> (LOG_KV env \<and> kv_fault w (kv_ops w) = None \<and> kv_fault w (Suc (kv_ops w)) = None
                \<and> history_array (kv w ''history'') = Some old \<longrightarrow>
               (\<exists>t. history_array (kv (snd (worker_fetch request env w)) ''history'') =
                      Some (logEntry t (success r) (logs r) # map normalise (take 19 old))))"
proof -
  obtain r w1 where run: "keepAlive env ''Web Dashboard'' w = (Inr r, w1)"
    using keepAlive_saves[of env "''Web Dashboard''" w] by blast
  have resp: "worker_fetch request env w =
               (Inr \<lparr>body = Text (JSON_stringify (RunResult_json r)),
                     response_headers = [(''Content-Type'', ''application/json'')]\<rparr>, w1)"
    using assms run by (simp add: worker_fetch_def handleTrigger_def io_bind_def io_return_def)
  have rt: "JSON_parse (JSON_stringify (RunResult_json r)) = Inr (RunResult_json r)"
    by (simp add: JSON_parse_stringify normalise_RunResult del: JSON_stringify.simps)
  have "\<exists>t. history_array (kv w1 ''history'') =
                      Some (logEntry t (success r) (logs r) # map normalise (take 19 old))"
    if "LOG_KV env" "kv_fault w (kv_ops w) = None" "kv_fault w (Suc (kv_ops w)) = None"
       "history_array (kv w ''history'') = Some old"
    using keepAlive_record[OF that, of "''Web Dashboard''"] run
    by (auto simp add: history_array_stringify normalise_logEntry simp del: JSON_stringify.simps)
  with run resp rt show ?thesis by auto
qed

theorem trigger_runs_and_reports_witness:
  "\<exists>r t. fst (keepAlive env_without_token ''Web Dashboard''
                 (example_world Map.empty no_faults offline)) = Inr r
     \<and> map_sum id body
          (fst (worker_fetch \<lparr>pathname = ''/api/trigger''\<rparr> env_without_token
                  (example_world Map.empty no_faults offline)))
         = Inr (Text (JSON_stringify (RunResult_json r)))
     \<and> history_array
          (kv (snd (worker_fetch \<lparr>pathname = ''/api/trigger''\<rparr> env_without_token
                      (example_world Map.empty no_faults offline))) ''history'')
         = Some [logEntry t (success r) (logs r)]"
proof -
  let ?w = "example_world Map.empty no_faults offline"
  let ?q = "\<lparr>pathname = ''/api/trigger''\<rparr>"
  have h: "LOG_KV env_without_token \<and> kv_fault ?w (kv_ops ?w) = None
           \<and> kv_fault ?w (Suc (kv_ops ?w)) = None \<and> history_array (kv ?w ''history'') = Some []"
    by (simp add: example_defs history_array_def)
  from trigger_runs_and_reports[of ?q env_without_token ?w "[]"] h
  show ?thesis by auto
qed

text \<open>
  The answer differs from the one a run with the source \<^verbatim>\<open>manual\<close> would give: the
  source is part of the first message.
\<close>

theorem trigger_source_counterexample:
  "map_sum id body
     (fst (worker_fetch \<lparr>pathname = ''/api/trigger''\<rparr> env_without_token
             (example_world Map.empty no_faults offline)))
   \<noteq> map_sum id (Text \<circ> JSON_stringify \<circ> RunResult_json)
       (fst (keepAlive env_without_token ''manual'' (example_world Map.empty no_faults offline)))"
proof -
  let ?w = "example_world Map.empty no_faults offline"
  let ?ts = "toISOString (clock ?w (ticks ?w))"
  let ?a = "\<lparr>success = False, logs = [log_start ?ts ''Web Dashboard'', log_no_token ?ts]\<rparr>"
  let ?b = "\<lparr>success = False, logs = [log_start ?ts ''manual'', log_no_token ?ts]\<rparr>"
  have nt: "\<not> truthy (KOYEB_TOKEN env_without_token)" by (simp add: example_defs)
  have "RunResult_json ?a \<noteq> RunResult_json ?b"
    by (simp add: RunResult_json_def log_start_def)
  then have "JSON_stringify (RunResult_json ?a) \<noteq> JSON_stringify (RunResult_json ?b)"
    using stringify_inject normalise_RunResult by blast
  then show ?thesis
    by (simp add: worker_fetch_def handleTrigger_def io_bind_def io_return_def
          keepAlive_no_token_run[OF nt] del: JSON_stringify.simps)
qed


subsection \<open>C4: a failed primary check\<close>

text \<open>
  Claim C4. When the request to the Koyeb API throws, or is answered with a status
  outside 200 to 299, \<^verbatim>\<open>keepAlive\<close> returns, and returns \<^verbatim>\<open>success = false\<close>: for every
  deployment (with or without an application URL) and whatever the second network
  call does. The exception of the first call does not leave \<^verbatim>\<open>keepAlive\<close>, whose
  outcome is a result and not an exception.
\<close>

theorem keepAlive_primary_failure:
  assumes "net w (length (requests w)) = Inl e
           \<or> net w (length (requests w)) = Inr r \<and> \<not> (200 \<le> status_code r \<and> status_code r \<le> 299)"
  shows "map_sum id success (fst (keepAlive env source w)) = Inr False"
proof (cases "truthy (KOYEB_TOKEN env)")
  case False
  then show ?thesis by (simp add: keepAlive_no_token_run)
next
  case True
  let ?ts = "toISOString (clock w (ticks w))"
  let ?w0 = "w\<lparr>ticks := Suc (ticks w)\<rparr>"
  obtain m w1 where api: "check_api env ?ts [log_start ?ts source] ?w0 = (Inr (False, m), w1)"
    using assms by (auto simp: check_api_run ok_def)
  obtain lg2 w2 where ping: "(if truthy (KOYEB_APP_URL env) then ping_app env ?ts m w1 else (Inr m, w1)) = (Inr lg2, w2)"
    using ping_step_returns by blast
  show ?thesis
    by (simp add: keepAlive_token_run[OF True api ping])
qed


theorem keepAlive_primary_failure_witness:
  "net (example_world Map.empty no_faults api_500_app_ok) 0
     = Inr \<lparr>status_code = 500, statusText = ''Internal Server Error'',
            json_body = Inl (SyntaxError ''Unexpected end of JSON input'')\<rparr>
   \<and> map_sum id success
        (fst (keepAlive example_env ''Manual'' (example_world Map.empty no_faults api_500_app_ok)))
       = Inr False"
  using keepAlive_primary_failure
          [of "example_world Map.empty no_faults api_500_app_ok" _
              "\<lparr>status_code = 500, statusText = ''Internal Server Error'',
                json_body = Inl (SyntaxError ''Unexpected end of JSON input'')\<rparr>"
              example_env "''Manual''"]
  by (simp add: example_defs)


subsection \<open>C5: a failed ping is advisory\<close>

text \<open>
  Claim C5. When the primary check succeeds (the token is set, the API answers with a
  status from 200 to 299 and a body from which the e-mail text can be read),
  \<^verbatim>\<open>keepAlive\<close> returns \<^verbatim>\<open>success = true\<close> whatever the ping of the application URL
  does. If the URL is set and the ping throws, the failure is the third and last message
  of the result.
\<close>

theorem keepAlive_secondary_advisory:
  assumes "truthy (KOYEB_TOKEN env)"
    and "net w (length (requests w)) = Inr r"
    and "200 \<le> status_code r \<and> status_code r \<le> 299"
    and "json_body r = Inr data" and "user_email data = Inr email"
  shows "map_sum id success (fst (keepAlive env source w)) = Inr True
         \<and> (truthy (KOYEB_APP_URL env) \<and> net w (Suc (length (requests w))) = Inl e \<longrightarrow>
              map_sum id logs (fst (keepAlive env source w)) =
                Inr [log_start (toISOString (clock w (ticks w))) source,
                     log_api_ok (toISOString (clock w (ticks w)))
                       (getTime (clock w (ticks w + 2)) - getTime (clock w (ticks w + 1))) email,
                     log_ping_failed (toISOString (clock w (ticks w))) (message e)])"
proof -
  let ?ts = "toISOString (clock w (ticks w))"
  let ?w0 = "w\<lparr>ticks := Suc (ticks w)\<rparr>"
  let ?lg1 = "[log_start ?ts source,
               log_api_ok ?ts (getTime (clock w (ticks w + 2)) - getTime (clock w (ticks w + 1))) email]"
  let ?w1 = "snd (check_api env ?ts [log_start ?ts source] ?w0)"
  have api: "check_api env ?ts [log_start ?ts source] ?w0 = (Inr (True, ?lg1), ?w1)"
    using assms by (simp add: check_api_run ok_def)
  have w1: "net ?w1 = net w" "length (requests ?w1) = Suc (length (requests w))"
    by (simp_all add: check_api_run)
  obtain lg2 w2 where ping: "(if truthy (KOYEB_APP_URL env) then ping_app env ?ts ?lg1 ?w1 else (Inr ?lg1, ?w1)) = (Inr lg2, w2)"
    using ping_step_returns by blast
  note run = keepAlive_token_run[OF assms(1) api ping]
  have "lg2 = ?lg1 @ [log_ping_failed ?ts (message e)]"
    if "truthy (KOYEB_APP_URL env)" "net w (Suc (length (requests w))) = Inl e"
    using ping that w1 by (simp add: ping_app_run)
  then show ?thesis
    using run by simp
qed


theorem keepAlive_secondary_advisory_witness:
  "map_sum id success
     (fst (keepAlive example_env ''Manual'' (example_world Map.empty no_faults api_ok_app_offline)))
    = Inr True
   \<and> map_sum id logs
       (fst (keepAlive example_env ''Manual'' (example_world Map.empty no_faults api_ok_app_offline)))
      = Inr [log_start ''2024-05-01T00:00:00.000Z'' ''Manual'',
             log_api_ok ''2024-05-01T00:00:00.000Z'' 1000 ''a@b.com'',
             log_ping_failed ''2024-05-01T00:00:00.000Z'' ''Network connection lost.'']"
proof -
  let ?w = "example_world Map.empty no_faults api_ok_app_offline"
  let ?r = "\<lparr>status_code = 200, statusText = ''OK'',
             json_body = Inr (JObj [(''user'', JObj [(''email'', JStr ''a@b.com'')])])\<rparr>"
  have h: "truthy (KOYEB_TOKEN example_env)" "net ?w (length (requests ?w)) = Inr ?r"
    "200 \<le> status_code ?r \<and> status_code ?r \<le> 299"
    "json_body ?r = Inr (JObj [(''user'', JObj [(''email'', JStr ''a@b.com'')])])"
    "user_email (JObj [(''user'', JObj [(''email'', JStr ''a@b.com'')])]) = Inr ''a@b.com''"
    by (simp_all add: example_defs user_email_def)
  have h2: "truthy (KOYEB_APP_URL example_env)"
    "net ?w (Suc (length (requests ?w))) = Inl (Error ''Network connection lost.'')"
    by (simp_all add: example_defs)
  from keepAlive_secondary_advisory
         [OF h, where e = "Error ''Network connection lost.''" and source = "''Manual''"] h2
  show ?thesis by (simp add: example_defs)
qed


subsection \<open>C6: appending to an unavailable store\<close>

text \<open>
  Claim C6, amended. \<^verbatim>\<open>saveLogs\<close> never throws. If \<^verbatim>\<open>LOG_KV\<close> is not bound, or
  the read of the history throws, or the operation after it (the write of the history)
  throws, the store is left exactly as it was, so later calls find what they would have
  found. The claim as stated promises this for every operation that throws; it does
  not hold for the last one, the write of the time of last run, which comes after the
  history has been written.
\<close>

theorem saveLogs_degrades:
  "fst (saveLogs env newLogs status w) = Inr ()
   \<and> (\<not> LOG_KV env \<or> kv_fault w (kv_ops w) \<noteq> None \<or> kv_fault w (Suc (kv_ops w)) \<noteq> None
        \<longrightarrow> kv (snd (saveLogs env newLogs status w)) = kv w)"
proof -
  have "fst (saveLogs env newLogs status w) = Inr ()"
    using saveLogs_pair[of env newLogs status w] by (metis fst_conv)
  moreover have "kv (snd (saveLogs env newLogs status w)) = kv w"
    if "\<not> LOG_KV env \<or> kv_fault w (kv_ops w) \<noteq> None \<or> kv_fault w (Suc (kv_ops w)) \<noteq> None"
    using that
    by (auto simp: saveLogs_def io_defs prim_defs parse_existing_def Let_def
             split: prod.splits sum.splits option.splits if_splits)
  ultimately show ?thesis by blast
qed


theorem saveLogs_degrades_witness:
  "kv_fault (example_world [''history'' \<mapsto> ''[]''] (fault_at 0) offline) 0 \<noteq> None
   \<and> fst (saveLogs example_env [''m''] True
            (example_world [''history'' \<mapsto> ''[]''] (fault_at 0) offline)) = Inr ()
   \<and> kv (snd (saveLogs example_env [''m''] True
                 (example_world [''history'' \<mapsto> ''[]''] (fault_at 0) offline)))
       = [''history'' \<mapsto> ''[]'']"
  using saveLogs_degrades
          [of example_env "[''m'']" True
              "example_world [''history'' \<mapsto> ''[]''] (fault_at 0) offline"]
  by (simp add: example_defs)

text \<open>
  When only the third operation throws, the exception is caught and printed, and the
  stored history has changed.
\<close>

theorem saveLogs_partial_write_counterexample:
  "console (snd (saveLogs example_env [''m''] True
                   (example_world Map.empty (fault_at 2) offline)))
     = [Error ''KV operation failed'']
   \<and> kv (snd (saveLogs example_env [''m''] True
                 (example_world Map.empty (fault_at 2) offline))) ''history''
     \<noteq> kv (example_world Map.empty (fault_at 2) offline) ''history''"
  by (simp add: saveLogs_def io_defs prim_defs parse_existing_def example_defs Let_def
        del: JSON_stringify.simps)


subsection \<open>C7: listing an unreadable history\<close>

text \<open>
  Claim C7. If \<^verbatim>\<open>LOG_KV\<close> is not bound, or the store has no \<^verbatim>\<open>history\<close> key, or the
  stored text does not parse, \<^verbatim>\<open>handleGetLogs\<close> returns the empty array \<^verbatim>\<open>[]\<close> as
  JSON, and does not throw; this holds whether or not the read itself throws.
\<close>

theorem handleGetLogs_empty:
  assumes "\<not> LOG_KV env \<or> kv w ''history'' = None
           \<or> kv w ''history'' = Some data \<and> JSON_parse data = Inl e"
  shows "fst (handleGetLogs env w) =
           Inr \<lparr>body = Text ''[]'',
                response_headers = [(''Content-Type'', ''application/json'')]\<rparr>"
  using assms
  by (auto simp: handleGetLogs_def io_defs prim_defs parse_existing_def Let_def
           split: prod.splits sum.splits option.splits if_splits)

theorem handleGetLogs_empty_witness:
  "JSON_parse ''not json'' = Inl (SyntaxError ''Unexpected token in JSON'')
   \<and> fst (handleGetLogs example_env
            (example_world [''history'' \<mapsto> ''not json''] no_faults offline)) =
       Inr \<lparr>body = Text ''[]'',
            response_headers = [(''Content-Type'', ''application/json'')]\<rparr>"
  using handleGetLogs_empty
          [of example_env "example_world [''history'' \<mapsto> ''not json''] no_faults offline"
              "''not json''" "SyntaxError ''Unexpected token in JSON''"]
        JSON_parse_not_json
  by (simp add: example_defs)


subsection \<open>C8: append, then list\<close>

text \<open>
  Claim C8 says: for every record and every state of an available store, \<^verbatim>\<open>saveLogs\<close>
  followed by \<^verbatim>\<open>handleGetLogs\<close> yields the record as the first element of the list, its
  fields unchanged by the JSON round trip, and \<^verbatim>\<open>saveLogs\<close> also writes the
  \<^verbatim>\<open>last_run\<close> key. The code does not do this when the stored history is a text that does
  not parse. \<^verbatim>\<open>saveLogs\<close> starts from \<^verbatim>\<open>let history = []\<close>, and \<^verbatim>\<open>handleGetLogs\<close> reads
  the same stored text as the empty history; but in \<^verbatim>\<open>saveLogs\<close> the exception of
  \<^verbatim>\<open>JSON.parse\<close> reaches the \<^verbatim>\<open>catch\<close> around the whole body. At the store below, whose
  operations all succeed, the call prints the \<^verbatim>\<open>SyntaxError\<close>, leaves the \<^verbatim>\<open>history\<close> key
  as it was and writes no \<^verbatim>\<open>last_run\<close>; the list that follows is empty, so the record is
  not its first element, and every later append meets the same stored text.
\<close>

theorem append_on_unreadable_history_writes_nothing:
  "kv (snd (saveLogs example_env [''m''] True
              (example_world [''history'' \<mapsto> ''not json''] no_faults offline))) ''history''
    = Some ''not json''
   \<and> kv (snd (saveLogs example_env [''m''] True
                 (example_world [''history'' \<mapsto> ''not json''] no_faults offline))) ''last_run''
    = None
   \<and> console (snd (saveLogs example_env [''m''] True
                      (example_world [''history'' \<mapsto> ''not json''] no_faults offline)))
    = [SyntaxError ''Unexpected token in JSON'']
   \<and> map_sum id body
        (fst (handleGetLogs example_env
                (snd (saveLogs example_env [''m''] True
                        (example_world [''history'' \<mapsto> ''not json''] no_faults offline)))))
    = Inr (Text ''[]'')"
  by (simp add: saveLogs_def handleGetLogs_def io_defs prim_defs parse_existing_def
        example_defs Let_def JSON_parse_not_json)

text \<open>
  Where the stored history is absent, empty or a JSON array, and the four operations of the
  store succeed, the code does what the claim says: the list starts with the new record,
  its text parses back to the array it lists, and \<^verbatim>\<open>last_run\<close> holds the next reading of
  the clock.
\<close>

lemma append_then_list_readable:
  assumes "LOG_KV env"
    and "kv_fault w (kv_ops w) = None" and "kv_fault w (kv_ops w + 1) = None"
    and "kv_fault w (kv_ops w + 2) = None" and "kv_fault w (kv_ops w + 3) = None"
    and "history_array (kv w ''history'') = Some old"
  shows "\<exists>rest.
           fst (handleGetLogs env (snd (saveLogs env newLogs status w))) =
             Inr \<lparr>body = Text (JSON_stringify (JArr
                      (logEntry (toISOString (clock w (ticks w))) status newLogs # rest))),
                  response_headers = [(''Content-Type'', ''application/json'')]\<rparr>
           \<and> JSON_parse (JSON_stringify (JArr
                      (logEntry (toISOString (clock w (ticks w))) status newLogs # rest)))
               = Inr (JArr (logEntry (toISOString (clock w (ticks w))) status newLogs # rest))
           \<and> length rest = min (length old) 19
           \<and> kv (snd (saveLogs env newLogs status w)) ''last_run''
               = Some (toISOString (clock w (Suc (ticks w))))"
proof -
  let ?e = "logEntry (toISOString (clock w (ticks w))) status newLogs"
  let ?w1 = "snd (saveLogs env newLogs status w)"
  let ?rest = "map normalise (take 19 old)"
  have run: "saveLogs env newLogs status w =
           (Inr (),
            w\<lparr>kv_ops := kv_ops w + 3, ticks := ticks w + 2,
              kv := (kv w)(''history'' \<mapsto> JSON_stringify (JArr (take LOG_LIMIT (?e # old))),
                      ''last_run'' \<mapsto> toISOString (clock w (Suc (ticks w))))\<rparr>)"
    using assms by (intro saveLogs_run) simp_all
  have "history_array (kv ?w1 ''history'') = Some (?e # ?rest)"
    by (simp add: run take_limit_Cons history_array_stringify normalise_logEntry
          del: JSON_stringify.simps)
  moreover have "kv_fault ?w1 (kv_ops ?w1) = None"
    using assms(5) by (simp add: run)
  ultimately have a: "fst (handleGetLogs env ?w1) =
           Inr \<lparr>body = Text (JSON_stringify (JArr (?e # ?rest))),
                response_headers = [(''Content-Type'', ''application/json'')]\<rparr>"
    using assms(1) by (intro handleGetLogs_array)
  have b: "JSON_parse (JSON_stringify (JArr (?e # ?rest))) = Inr (JArr (?e # ?rest))"
    by (simp add: JSON_parse_stringify normalise_logEntry normalise_idem comp_def
          del: JSON_stringify.simps)
  have c: "kv ?w1 ''last_run'' = Some (toISOString (clock w (Suc (ticks w))))"
    by (simp add: run)
  have d: "length ?rest = min (length old) 19"
    by simp
  from a b c d show ?thesis by blast
qed

subsection \<open>C9: the record agrees with the result\<close>

text \<open>
  Claim C9. Every run ends by calling \<^verbatim>\<open>saveLogs\<close> with exactly the messages and the
  flag it returns, on a store it has not touched before. So whenever the run persists
  its record (the store is bound, its read and its first write succeed, the stored
  history is readable), the first record of the history after the run has the status
  \<^verbatim>\<open>success\<close> if the returned flag is true and \<^verbatim>\<open>error\<close> otherwise, and its messages
  are the messages of the returned result.
\<close>

theorem persisted_record_matches_result:
  "\<exists>r w1. keepAlive env source w = (Inr r, snd (saveLogs env (logs r) (success r) w1))
     \<and> kv w1 = kv w \<and> kv_ops w1 = kv_ops w \<and> kv_fault w1 = kv_fault w
     \<and> (LOG_KV env \<and> kv_fault w (kv_ops w) = None \<and> kv_fault w (Suc (kv_ops w)) = None
          \<and> history_array (kv w ''history'') = Some old \<longrightarrow>
         (\<exists>t. history_array (kv (snd (keepAlive env source w)) ''history'') =
                Some (JObj [(''time'', JStr t),
                            (''status'', JStr (if success r then ''success'' else ''error'')),
                            (''messages'', JArr (map JStr (logs r)))]
                      # map normalise (take 19 old))))"
proof -
  obtain r w1 where run: "keepAlive env source w = (Inr r, snd (saveLogs env (logs r) (success r) w1))"
    and same: "kv w1 = kv w" "kv_ops w1 = kv_ops w" "kv_fault w1 = kv_fault w"
    using keepAlive_saves by blast
  have persisted:
    "LOG_KV env \<and> kv_fault w (kv_ops w) = None \<and> kv_fault w (Suc (kv_ops w)) = None
       \<and> history_array (kv w ''history'') = Some old \<longrightarrow>
     (\<exists>t. history_array (kv (snd (keepAlive env source w)) ''history'') =
            Some (JObj [(''time'', JStr t),
                        (''status'', JStr (if success r then ''success'' else ''error'')),
                        (''messages'', JArr (map JStr (logs r)))]
                  # map normalise (take 19 old)))"
  proof (intro impI, elim conjE)
    assume h: "LOG_KV env" "kv_fault w (kv_ops w) = None" "kv_fault w (Suc (kv_ops w)) = None"
      "history_array (kv w ''history'') = Some old"
    have "kv (snd (saveLogs env (logs r) (success r) w1)) ''history'' =
            Some (JSON_stringify (JArr (take LOG_LIMIT
               (logEntry (toISOString (clock w1 (ticks w1))) (success r) (logs r) # old))))"
      using h same by (intro saveLogs_history) simp_all
    then have "history_array (kv (snd (keepAlive env source w)) ''history'') =
            Some (logEntry (toISOString (clock w1 (ticks w1))) (success r) (logs r)
                  # map normalise (take 19 old))"
      by (simp add: run take_limit_Cons history_array_stringify normalise_logEntry
            del: JSON_stringify.simps)
    then show "\<exists>t. history_array (kv (snd (keepAlive env source w)) ''history'') =
            Some (JObj [(''time'', JStr t),
                        (''status'', JStr (if success r then ''success'' else ''error'')),
                        (''messages'', JArr (map JStr (logs r)))]
                  # map normalise (take 19 old))"
      by (auto simp: logEntry_def)
  qed
  show ?thesis
    by (intro exI[of _ r] exI[of _ w1] conjI run same persisted)
qed

theorem persisted_record_matches_result_witness:
  "\<exists>r t. fst (keepAlive example_env ''Manual''
                 (example_world Map.empty no_faults api_500_app_ok)) = Inr r
     \<and> history_array
          (kv (snd (keepAlive example_env ''Manual''
                      (example_world Map.empty no_faults api_500_app_ok))) ''history'')
        = Some [JObj [(''time'', JStr t),
                      (''status'', JStr (if success r then ''success'' else ''error'')),
                      (''messages'', JArr (map JStr (logs r)))]]"
proof -
  let ?w = "example_world Map.empty no_faults api_500_app_ok"
  have h: "LOG_KV example_env \<and> kv_fault ?w (kv_ops ?w) = None
    \<and> kv_fault ?w (Suc (kv_ops ?w)) = None \<and> history_array (kv ?w ''history'') = Some []"
    by (simp_all add: example_defs history_array_def)
  from persisted_record_matches_result[of example_env "''Manual''" ?w "[]"] h
  show ?thesis by auto
qed

subsection \<open>C10: the aborted run is recorded\<close>

text \<open>
  Claim C10, amended. A run without the token still calls \<^verbatim>\<open>saveLogs\<close> before it
  returns, with its two messages and the status false: the world it leaves is the world
  that call leaves. With the store bound, the record of the run is persisted when the
  read and the first write of the store succeed and the stored history is readable: the
  history after the run then starts with a record of status \<^verbatim>\<open>error\<close> holding the two
  messages of the run. The claim as stated promises the record for every bound store;
  \<^verbatim>\<open>saveLogs\<close> is best effort, and a store whose operations throw keeps no record.
\<close>

theorem aborted_run_is_recorded:
  assumes "\<not> truthy (KOYEB_TOKEN env)"
  shows "snd (keepAlive env source w) =
           snd (saveLogs env [log_start (toISOString (clock w (ticks w))) source,
                              log_no_token (toISOString (clock w (ticks w)))] False
                  (w\<lparr>ticks := Suc (ticks w)\<rparr>))
         \<and> (LOG_KV env \<and> kv_fault w (kv_ops w) = None \<and> kv_fault w (Suc (kv_ops w)) = None
              \<and> history_array (kv w ''history'') = Some old \<longrightarrow>
             history_array (kv (snd (keepAlive env source w)) ''history'') =
               Some (JObj [(''time'', JStr (toISOString (clock w (Suc (ticks w))))),
                           (''status'', JStr ''error''),
                           (''messages'',
                            JArr [JStr (log_start (toISOString (clock w (ticks w))) source),
                                  JStr (log_no_token (toISOString (clock w (ticks w))))])]
                     # map normalise (take 19 old)))"
proof -
  let ?lg = "[log_start (toISOString (clock w (ticks w))) source,
              log_no_token (toISOString (clock w (ticks w)))]"
  let ?w0 = "w\<lparr>ticks := Suc (ticks w)\<rparr>"
  have run: "snd (keepAlive env source w) = snd (saveLogs env ?lg False ?w0)"
    by (simp add: keepAlive_no_token_run[OF assms])
  have "history_array (kv (snd (saveLogs env ?lg False ?w0)) ''history'') =
               Some (JObj [(''time'', JStr (toISOString (clock w (Suc (ticks w))))),
                           (''status'', JStr ''error''),
                           (''messages'',
                            JArr [JStr (log_start (toISOString (clock w (ticks w))) source),
                                  JStr (log_no_token (toISOString (clock w (ticks w))))])]
                     # map normalise (take 19 old))"
    if h: "LOG_KV env" "kv_fault w (kv_ops w) = None" "kv_fault w (Suc (kv_ops w)) = None"
      "history_array (kv w ''history'') = Some old"
  proof -
    have "kv (snd (saveLogs env ?lg False ?w0)) ''history'' =
            Some (JSON_stringify (JArr (take LOG_LIMIT
               (logEntry (toISOString (clock ?w0 (ticks ?w0))) False ?lg # old))))"
      using h by (intro saveLogs_history) simp_all
    then show ?thesis
      by (simp add: take_limit_Cons history_array_stringify normalise_logEntry
            del: JSON_stringify.simps)
         (simp add: logEntry_def)
  qed
  with run show ?thesis by simp
qed

theorem aborted_run_is_recorded_witness:
  "history_array
     (kv (snd (keepAlive env_without_token ''Manual''
                 (example_world Map.empty no_faults offline))) ''history'')
   = Some [JObj [(''time'', JStr ''2024-05-01T00:00:01.000Z''),
                 (''status'', JStr ''error''),
                 (''messages'',
                  JArr [JStr (log_start ''2024-05-01T00:00:00.000Z'' ''Manual''),
                        JStr (log_no_token ''2024-05-01T00:00:00.000Z'')])]]"
proof -
  let ?w = "example_world Map.empty no_faults offline"
  have h: "\<not> truthy (KOYEB_TOKEN env_without_token)"
    by (simp add: example_defs)
  have h2: "LOG_KV env_without_token \<and> kv_fault ?w (kv_ops ?w) = None
    \<and> kv_fault ?w (Suc (kv_ops ?w)) = None \<and> history_array (kv ?w ''history'') = Some []"
    by (simp add: example_defs history_array_def)
  from aborted_run_is_recorded[OF h, where source = "''Manual''" and w = ?w and old = "[]"] h2
  have "history_array (kv (snd (keepAlive env_without_token ''Manual'' ?w)) ''history'') =
          Some (JObj [(''time'', JStr (toISOString (clock ?w (Suc (ticks ?w))))),
                      (''status'', JStr ''error''),
                      (''messages'',
                       JArr [JStr (log_start (toISOString (clock ?w (ticks ?w))) ''Manual''),
                             JStr (log_no_token (toISOString (clock ?w (ticks ?w))))])]
                # map normalise (take 19 []))"
    by blast
  then show ?thesis by (simp add: example_defs)
qed

text \<open>
  With the store bound and its read throwing, the run without the token returns as
  before, the exception is printed, and no history is stored.
\<close>

theorem aborted_run_unrecorded_counterexample:
  "LOG_KV env_without_token
   \<and> map_sum id success
        (fst (keepAlive env_without_token ''Manual''
                (example_world Map.empty (fault_at 0) offline))) = Inr False
   \<and> console (snd (keepAlive env_without_token ''Manual''
                      (example_world Map.empty (fault_at 0) offline)))
       = [Error ''KV operation failed'']
   \<and> kv (snd (keepAlive env_without_token ''Manual''
                 (example_world Map.empty (fault_at 0) offline))) ''history'' = None"
proof -
  have nt: "\<not> truthy (KOYEB_TOKEN env_without_token)" by (simp add: example_defs)
  show ?thesis
    by (simp add: keepAlive_no_token_run[OF nt])
       (simp add: saveLogs_def io_defs prim_defs example_defs Let_def)
qed

end
